theory Spec2Isabelle
  imports
    Main
    "HOL-Library.Char_ord"
    "HOL-Library.List_Lexorder"
    "HOL-Library.Product_Lexorder"
    "HOL-Library.AList"
    "HOL-Library.Log_Nat"
    "HOL-Library.Multiset"
begin

section \<open>Conventions of the embedding\<close>

text \<open>
  The theory embeds the seeding and query engine of \<^verbatim>\<open>auf_analyzer/storage/db.py\<close>.

  \<^item> Python integers are \<open>int\<close>. Strings are \<open>string\<close>, read as UTF-8 bytes; the order
    on them is the lexicographic order on bytes, which is the order of SQLite's default
    BINARY collation and of Python's comparison of \<open>str\<close> by code point.
  \<^item> A row of an SQL table is a record whose fields carry the alias the source's queries
    give the table (\<open>t.\<close> teams, \<open>p.\<close> players, \<open>m.\<close> matches, \<open>e.\<close> match_events,
    \<open>s.\<close> standings). A table is the list of its rows in insertion order.
  \<^item> A Python \<open>dict\<close> whose iteration order the code relies on is an association list with
    distinct keys in insertion order; assigning to a key is \<open>AList.update\<close>, which replaces
    in place or appends.
  \<^item> A Python \<open>float\<close> is the rational number that the IEEE double denotes. Integer
    true division and \<open>round(x, 2)\<close> round to the nearest double, ties to even. Quotients
    are taken to lie in the normal range of doubles; leaving it needs operands beyond
    \<open>2 ^ 1022\<close>.
  \<^item> Every \<open>raise\<close> is a value \<open>Inl\<close> of a sum type.
  \<^item> SQLite stores 64-bit integers; the integers of a store are taken to fit.
\<close>

datatype error = ValueError | KeyError | IntegrityError | IndexError

section \<open>Floating point: \<open>a / b\<close> on integers and \<open>round(x, 2)\<close>\<close>

definition pow2 :: "int \<Rightarrow> rat" where
  "pow2 e = (if 0 \<le> e then 2 ^ nat e else 1 / 2 ^ nat (- e))"

definition round_half_even :: "rat \<Rightarrow> int" where
  "round_half_even x =
     (let f = \<lfloor>x\<rfloor>; r = x - of_int f
      in if r < 1 / 2 then f else if 1 / 2 < r then f + 1 else if even f then f else f + 1)"

text \<open>\<open>ilog2 p m\<close> is the exponent \<open>k\<close> with \<open>2 ^ k \<le> p / m < 2 ^ (k + 1)\<close>, for positive
  \<open>p\<close> and \<open>m\<close>.\<close>

definition ilog2 :: "int \<Rightarrow> int \<Rightarrow> int" where
  "ilog2 p m =
     (let k = bitlen p - bitlen m
      in if pow2 k * of_int m \<le> of_int p then k else k - 1)"

text \<open>The double nearest to \<open>p / m\<close>: a 53-bit significand, ties to even.\<close>

definition to_double :: "int \<Rightarrow> int \<Rightarrow> rat" where
  "to_double p m =
     (if p = 0 then 0
      else let e = ilog2 \<bar>p\<bar> \<bar>m\<bar> - 52
           in of_int (round_half_even (of_int p / of_int m / pow2 e)) * pow2 e)"

text \<open>Both divisions of the source have a divisor guarded against zero (\<^verbatim>\<open>mp or 1\<close>,
  \<^verbatim>\<open>if pj\<close>), so \<open>a / b\<close> is \<open>to_double a b\<close>.\<close>

text \<open>\<open>round(x, 2)\<close>: the decimal with two places nearest to the double \<open>x\<close>, ties to
  even, read back as a double.\<close>

definition py_round2 :: "rat \<Rightarrow> rat" where
  "py_round2 x = to_double (round_half_even (100 * x)) 100"

section \<open>The relational store\<close>

record Team =
  t_id :: int
  t_name :: string
  t_short_name :: string
  t_city :: string
  t_stadium :: string
  t_logo_key :: string
  t_is_placeholder :: bool

record Player =
  p_id :: int
  p_full_name :: string
  p_team_id :: int
  p_position :: "string option"
  p_nationality :: "string option"
  p_birth_year :: "int option"

record Match =
  m_id :: int
  m_season_year :: int
  m_stage_code :: string
  m_round :: string
  m_date :: string
  m_time :: string
  m_home_team_id :: int
  m_away_team_id :: int
  m_home_goals :: int
  m_away_goals :: int
  m_home_xg :: rat
  m_away_xg :: rat
  m_attendance :: int
  m_venue :: string
  m_referee :: string

record MatchEvent =
  e_id :: int
  e_match_id :: int
  e_minute :: int
  e_team_id :: int
  e_player_id :: "int option"
  e_type :: string
  e_detail :: string

record StandingsRow =
  s_season_year :: int
  s_stage_code :: string
  s_team_id :: int
  s_mp :: int
  s_w :: int
  s_d :: int
  s_l :: int
  s_gf :: int
  s_ga :: int
  s_gd :: int
  s_pts :: int
  s_ppg :: rat
  s_last5 :: string
  s_top_scorer :: string
  s_goalkeeper :: string
  s_avg_attendance :: rat

text \<open>The tables of \<^verbatim>\<open>create_schema\<close> that the modelled functions read or write.\<close>

record Store =
  metadata :: "(string \<times> string) list"
  teams :: "Team list"
  seasons :: "int list"
  stages :: "(string \<times> string) list"
  players :: "Player list"
  matches :: "Match list"
  match_events :: "MatchEvent list"
  standings :: "StandingsRow list"

section \<open>Query layer\<close>

definition stages_for_query :: "string \<Rightarrow> string list" where
  "stages_for_query stage = (if stage = ''anual'' then [''apertura'', ''clausura''] else [stage])"

subsection \<open>\<^verbatim>\<open>compute_table\<close>\<close>

text \<open>The six counting fields: the inner dictionaries of \<^verbatim>\<open>standings_data\<close>.\<close>

record Stats =
  mp :: int
  w :: int
  d :: int
  l :: int
  gf :: int
  ga :: int

text \<open>The dictionaries of the \<open>rows\<close> list, with the canonical and the legacy keys; the
  six counting fields come first.\<close>

record TableRow = Stats +
  pos :: int
  team :: string
  team_id :: int
  logo_key :: string
  gc :: int
  gd :: int
  pts :: int
  ppg :: rat
  last5 :: string
  avg_attendance :: rat
  pj :: int
  pg :: int
  pe :: int
  pp :: int
  dg :: int

record Table =
  season :: int
  stage :: string
  rows :: "TableRow list"
  updated_at :: string
  source :: string

text \<open>The \<open>SELECT\<close> of \<^verbatim>\<open>compute_table\<close>: standings joined with teams on the team
  identifier, restricted to the season and stage, in the order of the \<open>ORDER BY\<close>.\<close>

definition table_query :: "Store \<Rightarrow> int \<Rightarrow> string \<Rightarrow> (StandingsRow \<times> Team) list" where
  "table_query db season_arg stage_arg =
     sort_key (\<lambda>(s, t). (- s_pts s, - s_gd s, - s_gf s, t_name t))
       [(s, t). s \<leftarrow> standings db, t \<leftarrow> teams db, s_team_id s = t_id t,
                s_season_year s = season_arg \<and> s_stage_code s = stage_arg]"

definition normalize_row :: "nat \<times> StandingsRow \<times> Team \<Rightarrow> TableRow" where
  "normalize_row = (\<lambda>(idx, s, t).
     \<lparr> mp = s_mp s, w = s_w s, d = s_d s, l = s_l s, gf = s_gf s, ga = s_ga s,
       pos = int idx, team = t_name t, team_id = s_team_id s, logo_key = t_logo_key t,
       gc = s_ga s, gd = s_gd s, pts = s_pts s, ppg = s_ppg s, last5 = s_last5 s,
       avg_attendance = s_avg_attendance s,
       pj = s_mp s, pg = s_w s, pe = s_d s, pp = s_l s, dg = s_gd s \<rparr>)"

text \<open>\<open>now\<close> is the reading of the clock, \<^verbatim>\<open>datetime.utcnow().isoformat()\<close>, at the call.
  The function opens its own connection and therefore reads the committed store.\<close>

definition compute_table :: "Store \<Rightarrow> string \<Rightarrow> int \<Rightarrow> string \<Rightarrow> Table" where
  "compute_table db now season_arg stage_arg =
     \<lparr> season = season_arg, stage = stage_arg,
       rows = map normalize_row (enumerate 1 (table_query db season_arg stage_arg)),
       updated_at = now, source = ''seed'' \<rparr>"

subsection \<open>\<^verbatim>\<open>cards_by_team\<close> and \<^verbatim>\<open>discipline_table\<close>\<close>

record CardsRow =
  c_team_id :: int
  c_team :: string
  c_logo_key :: string
  c_yellow :: int
  c_red :: int

text \<open>The join of \<^verbatim>\<open>cards_by_team\<close>: events with their match and their team, restricted
  to the season and the expanded stages.\<close>

definition cards_join :: "Store \<Rightarrow> int \<Rightarrow> string \<Rightarrow> (MatchEvent \<times> Match \<times> Team) list" where
  "cards_join db season_arg stage_arg =
     [(e, m, t). e \<leftarrow> match_events db, m \<leftarrow> matches db, e_match_id e = m_id m,
                 t \<leftarrow> teams db, e_team_id e = t_id t,
                 m_season_year m = season_arg \<and> m_stage_code m \<in> set (stages_for_query stage_arg)]"

definition cards_group_key :: "MatchEvent \<times> Match \<times> Team \<Rightarrow> int \<times> string \<times> string" where
  "cards_group_key = (\<lambda>(e, m, t). (t_id t, t_name t, t_logo_key t))"

definition cards_by_team :: "Store \<Rightarrow> int \<Rightarrow> string \<Rightarrow> CardsRow list" where
  "cards_by_team db season_arg stage_arg =
     (let joined = cards_join db season_arg stage_arg;
          count = (\<lambda>g ty. int (length
                     [x \<leftarrow> joined. cards_group_key x = g \<and> e_type (fst x) = ty]))
      in sort_key c_team
           (map (\<lambda>g. \<lparr> c_team_id = fst g, c_team = fst (snd g), c_logo_key = snd (snd g),
                       c_yellow = count g ''yellow'', c_red = count g ''red'' \<rparr>)
                (remdups (map cards_group_key joined))))"

record DisciplineRow =
  Equipo :: string
  PJ :: int
  Amarillas :: int
  Rojas :: int
  Tarjetas_totales :: int
  Tarjetas_partido :: rat

text \<open>The count \<open>pj\<close> of \<^verbatim>\<open>discipline_table\<close> for one team name: the rows of matches
  joined with teams on \<open>home_team_id = t.id OR away_team_id = t.id\<close>.\<close>

definition matches_map :: "Store \<Rightarrow> int \<Rightarrow> string \<Rightarrow> string \<Rightarrow> int" where
  "matches_map db season_arg stage_arg name =
     int (length [(m, t). m \<leftarrow> matches db, t \<leftarrow> teams db,
                          m_home_team_id m = t_id t \<or> m_away_team_id m = t_id t,
                          m_season_year m = season_arg
                            \<and> m_stage_code m \<in> set (stages_for_query stage_arg),
                          t_name t = name])"

definition enrich :: "Store \<Rightarrow> int \<Rightarrow> string \<Rightarrow> CardsRow \<Rightarrow> DisciplineRow" where
  "enrich db season_arg stage_arg row =
     (let pj_v = matches_map db season_arg stage_arg (c_team row);
          total = c_yellow row + c_red row;
          per_game = (if pj_v \<noteq> 0 then py_round2 (to_double total pj_v) else 0)
      in \<lparr> Equipo = c_team row, PJ = pj_v, Amarillas = c_yellow row, Rojas = c_red row,
           Tarjetas_totales = total, Tarjetas_partido = per_game \<rparr>)"

definition discipline_table :: "Store \<Rightarrow> int \<Rightarrow> string \<Rightarrow> DisciplineRow list" where
  "discipline_table db season_arg stage_arg =
     map (enrich db season_arg stage_arg) (cards_by_team db season_arg stage_arg)"

section \<open>Standings aggregator\<close>

record MatchResult =
  match_id :: int
  season_year :: int
  stage_code :: string
  home_team_id :: int
  away_team_id :: int
  home_goals :: int
  away_goals :: int
  date :: string

text \<open>A dictionary built from a sequence of key-value pairs: a later pair with a key
  already present replaces the value and keeps the key's place.\<close>

definition dict_of :: "('k \<times> 'v) list \<Rightarrow> ('k \<times> 'v) list" where
  "dict_of kvs = foldl (\<lambda>acc (k, v). AList.update k v acc) [] kvs"

text \<open>\<^verbatim>\<open>team_names = {row["id"]: row["name"] for row in conn.execute("SELECT id, name FROM teams")}\<close>\<close>

definition team_names_of :: "Store \<Rightarrow> (int \<times> string) list" where
  "team_names_of db = dict_of (map (\<lambda>t. (t_id t, t_name t)) (teams db))"

definition zero_stats :: Stats where
  "zero_stats = \<lparr> mp = 0, w = 0, d = 0, l = 0, gf = 0, ga = 0 \<rparr>"

text \<open>\<^verbatim>\<open>{team_id: {"mp": 0, ...} for team_id in team_names}\<close>\<close>

definition zero_table :: "(int \<times> string) list \<Rightarrow> (int \<times> Stats) list" where
  "zero_table team_names = map (\<lambda>(tid, name). (tid, zero_stats)) team_names"

text \<open>The body of the inner loop of the fold, for one side of a match: \<open>gf_v\<close> and
  \<open>ga_v\<close> are the goals for and against that side.\<close>

definition bump :: "Stats \<Rightarrow> int \<Rightarrow> int \<Rightarrow> Stats" where
  "bump row gf_v ga_v =
     (let row1 = row\<lparr> mp := mp row + 1, gf := gf row + gf_v, ga := ga row + ga_v \<rparr>
      in if gf_v > ga_v then row1\<lparr> w := w row1 + 1 \<rparr>
         else if gf_v = ga_v then row1\<lparr> d := d row1 + 1 \<rparr>
         else row1\<lparr> l := l row1 + 1 \<rparr>)"

text \<open>\<^verbatim>\<open>row = table[team_id]\<close> raises \<open>KeyError\<close> for a team that is not in the table.\<close>

definition update_side ::
  "(int \<times> Stats) list \<Rightarrow> int \<Rightarrow> int \<Rightarrow> int \<Rightarrow> error + (int \<times> Stats) list" where
  "update_side table tid gf_v ga_v =
     (case map_of table tid of
        None \<Rightarrow> Inl KeyError
      | Some row \<Rightarrow> Inr (AList.update tid (bump row gf_v ga_v) table))"

type_synonym standings_data = "((int \<times> string) \<times> (int \<times> Stats) list) list"

definition fold_match ::
  "(int \<times> string) list \<Rightarrow> standings_data \<Rightarrow> MatchResult \<Rightarrow> error + standings_data" where
  "fold_match team_names sd m =
     (let key = (season_year m, stage_code m);
          sd1 = (if key \<in> fst ` set sd then sd
                 else AList.update key (zero_table team_names) sd)
      in case map_of sd1 key of
           None \<Rightarrow> Inl KeyError
         | Some table \<Rightarrow>
             (case update_side table (home_team_id m) (home_goals m) (away_goals m) of
                Inl err \<Rightarrow> Inl err
              | Inr table1 \<Rightarrow>
                  (case update_side table1 (away_team_id m) (away_goals m) (home_goals m) of
                     Inl err \<Rightarrow> Inl err
                   | Inr table2 \<Rightarrow> Inr (AList.update key table2 sd1))))"

fun fold_matches ::
  "(int \<times> string) list \<Rightarrow> standings_data \<Rightarrow> MatchResult list \<Rightarrow> error + standings_data" where
  "fold_matches team_names sd [] = Inr sd"
| "fold_matches team_names sd (m # ms) =
     (case fold_match team_names sd m of
        Inl err \<Rightarrow> Inl err
      | Inr sd' \<Rightarrow> fold_matches team_names sd' ms)"

text \<open>\<^verbatim>\<open>for key in ["mp", "w", "d", "l", "gf", "ga"]: target[key] += stats[key]\<close>\<close>

definition add_stats :: "Stats \<Rightarrow> Stats \<Rightarrow> Stats" where
  "add_stats target stats =
     \<lparr> mp = mp target + mp stats, w = w target + w stats, d = d target + d stats,
       l = l target + l stats, gf = gf target + gf stats, ga = ga target + ga stats \<rparr>"

fun add_table :: "(int \<times> Stats) list \<Rightarrow> (int \<times> Stats) list \<Rightarrow> error + (int \<times> Stats) list" where
  "add_table annual [] = Inr annual"
| "add_table annual ((tid, stats) # rest) =
     (case map_of annual tid of
        None \<Rightarrow> Inl KeyError
      | Some target \<Rightarrow> add_table (AList.update tid (add_stats target stats) annual) rest)"

fun rollup_stages :: "int \<Rightarrow> standings_data \<Rightarrow> string list \<Rightarrow> error + standings_data" where
  "rollup_stages season_arg sd [] = Inr sd"
| "rollup_stages season_arg sd (stage_arg # rest) =
     (case map_of sd (season_arg, stage_arg) of
        None \<Rightarrow> Inl KeyError
      | Some table \<Rightarrow>
          (case map_of sd (season_arg, ''anual'') of
             None \<Rightarrow> Inl KeyError
           | Some annual \<Rightarrow>
               (case add_table annual table of
                  Inl err \<Rightarrow> Inl err
                | Inr annual' \<Rightarrow>
                    rollup_stages season_arg
                      (AList.update (season_arg, ''anual'') annual' sd) rest)))"

text \<open>The four per-team lookups that fill the columns \<open>last5\<close>, \<open>top_scorer\<close>,
  \<open>goalkeeper\<close> and \<open>avg_attendance\<close>: the results of \<^verbatim>\<open>_last5_strings\<close>,
  \<^verbatim>\<open>_top_scorer_by_team\<close>, \<^verbatim>\<open>_avg_attendance_by_team\<close> and \<^verbatim>\<open>_goalkeeper_map\<close>.
  These are SQL queries over the other tables that leave the choice among tied or grouped
  rows to the database; the aggregator takes them as a parameter, a function of the
  connection's store, the season and the stage.\<close>

record Aux =
  last5_strings :: "int \<rightharpoonup> string"
  top_scorer_by_team :: "int \<rightharpoonup> string"
  avg_attendance_by_team :: "int \<rightharpoonup> rat"
  goalkeeper_map :: "int \<rightharpoonup> string"

type_synonym helpers = "Store \<Rightarrow> int \<Rightarrow> string \<Rightarrow> Aux"

definition get_or :: "('k \<rightharpoonup> 'v) \<Rightarrow> 'k \<Rightarrow> 'v \<Rightarrow> 'v" where
  "get_or m k dflt = (case m k of None \<Rightarrow> dflt | Some v \<Rightarrow> v)"

definition standings_row :: "Aux \<Rightarrow> int \<Rightarrow> string \<Rightarrow> int \<times> Stats \<Rightarrow> StandingsRow" where
  "standings_row aux season_arg stage_arg = (\<lambda>(tid, stats).
     let gd_v = gf stats - ga stats;
         pts_v = w stats * 3 + d stats;
         mp_v = (if mp stats \<noteq> 0 then mp stats else 1);
         ppg_v = py_round2 (to_double pts_v mp_v)
     in \<lparr> s_season_year = season_arg, s_stage_code = stage_arg, s_team_id = tid,
          s_mp = mp stats, s_w = w stats, s_d = d stats, s_l = l stats,
          s_gf = gf stats, s_ga = ga stats, s_gd = gd_v, s_pts = pts_v, s_ppg = ppg_v,
          s_last5 = get_or (last5_strings aux) tid [],
          s_top_scorer = get_or (top_scorer_by_team aux) tid [],
          s_goalkeeper = get_or (goalkeeper_map aux) tid [],
          s_avg_attendance = get_or (avg_attendance_by_team aux) tid 0 \<rparr>)"

text \<open>\<^verbatim>\<open>rows.sort(key=lambda r: (-r[10], -r[9], -r[7], team_names.get(r[2], "")))\<close>\<close>

definition sort_rows :: "(int \<times> string) list \<Rightarrow> StandingsRow list \<Rightarrow> StandingsRow list" where
  "sort_rows team_names =
     sort_key (\<lambda>r. (- s_pts r, - s_gd r, - s_gf r, get_or (map_of team_names) (s_team_id r) []))"

text \<open>\<^verbatim>\<open>executemany\<close> of the \<open>INSERT\<close>: a row whose primary key
  \<open>(season_year, stage_code, team_id)\<close> is in the table raises \<open>IntegrityError\<close>.\<close>

definition s_key :: "StandingsRow \<Rightarrow> int \<times> string \<times> int" where
  "s_key r = (s_season_year r, s_stage_code r, s_team_id r)"

fun insert_standings :: "StandingsRow list \<Rightarrow> StandingsRow list \<Rightarrow> error + StandingsRow list" where
  "insert_standings tbl [] = Inr tbl"
| "insert_standings tbl (r # rs) =
     (if s_key r \<in> s_key ` set tbl then Inl IntegrityError
      else insert_standings (tbl @ [r]) rs)"

fun store_tables :: "helpers \<Rightarrow> (int \<times> string) list \<Rightarrow> Store \<Rightarrow> standings_data \<Rightarrow> error + Store" where
  "store_tables h team_names db [] = Inr db"
| "store_tables h team_names db (((season_arg, stage_arg), table) # rest) =
     (let aux = h db season_arg stage_arg;
          new_rows = sort_rows team_names (map (standings_row aux season_arg stage_arg) table)
      in case insert_standings (standings db) new_rows of
           Inl err \<Rightarrow> Inl err
         | Inr tbl \<Rightarrow> store_tables h team_names (db\<lparr> standings := tbl \<rparr>) rest)"

text \<open>A connection: the committed store, which a new connection reads, and the store as
  the connection sees it, with its uncommitted changes.\<close>

record Conn =
  disk :: Store
  view :: Store

definition commit :: "Conn \<Rightarrow> Conn" where
  "commit c = c\<lparr> disk := view c \<rparr>"

text \<open>The first half of \<^verbatim>\<open>_build_and_store_standings\<close>, up to the \<open>DELETE\<close>: the
  dictionary \<^verbatim>\<open>standings_data\<close> after the fold over the matches and the annual roll-up.\<close>

definition compute_standings_data ::
  "(int \<times> string) list \<Rightarrow> int \<Rightarrow> MatchResult list \<Rightarrow> error + standings_data" where
  "compute_standings_data team_names season_arg ms =
     (let sd0 = map (\<lambda>stage_arg. ((season_arg, stage_arg), zero_table team_names))
                  [''apertura'', ''clausura'', ''intermedio'']
      in case fold_matches team_names sd0 ms of
           Inl err \<Rightarrow> Inl err
         | Inr sd1 \<Rightarrow>
             rollup_stages season_arg
               (AList.update (season_arg, ''anual'') (zero_table team_names) sd1)
               [''apertura'', ''clausura''])"

definition build_and_store_standings ::
  "helpers \<Rightarrow> Conn \<Rightarrow> int \<Rightarrow> MatchResult list \<Rightarrow> error + Conn" where
  "build_and_store_standings h conn season_arg ms =
     (let team_names = team_names_of (view conn)
      in case compute_standings_data team_names season_arg ms of
           Inl err \<Rightarrow> Inl err
         | Inr sd2 \<Rightarrow>
             (let db1 = (view conn)\<lparr> standings :=
                          [s \<leftarrow> standings (view conn). s_season_year s \<noteq> season_arg] \<rparr>
              in case store_tables h team_names db1 sd2 of
                   Inl err \<Rightarrow> Inl err
                 | Inr db2 \<Rightarrow> Inr (commit (conn\<lparr> view := db2 \<rparr>))))"

section \<open>Vocabulary of the properties\<close>

text \<open>A team has an event in a season and stage when some row of \<open>match_events\<close> carries
  its identifier and belongs to a match of the season in one of the expanded stages.\<close>

definition has_event :: "Store \<Rightarrow> int \<Rightarrow> string \<Rightarrow> int \<Rightarrow> bool" where
  "has_event db season_arg stage_arg tid \<longleftrightarrow>
     (\<exists>e \<in> set (match_events db). \<exists>m \<in> set (matches db).
        e_team_id e = tid \<and> e_match_id e = m_id m \<and> m_season_year m = season_arg
        \<and> m_stage_code m \<in> set (stages_for_query stage_arg))"

definition has_event_of_type :: "Store \<Rightarrow> int \<Rightarrow> string \<Rightarrow> int \<Rightarrow> string \<Rightarrow> bool" where
  "has_event_of_type db season_arg stage_arg tid ty \<longleftrightarrow>
     (\<exists>e \<in> set (match_events db). \<exists>m \<in> set (matches db).
        e_team_id e = tid \<and> e_type e = ty \<and> e_match_id e = m_id m
        \<and> m_season_year m = season_arg
        \<and> m_stage_code m \<in> set (stages_for_query stage_arg))"

definition stage_matches :: "int \<Rightarrow> string \<Rightarrow> MatchResult list \<Rightarrow> MatchResult list" where
  "stage_matches season_arg stage_arg ms =
     [m \<leftarrow> ms. season_year m = season_arg \<and> stage_code m = stage_arg]"

definition side_results :: "int \<Rightarrow> MatchResult list \<Rightarrow> (int \<times> int) list" where
  "side_results tid ms =
     concat (map (\<lambda>m. (if home_team_id m = tid then [(home_goals m, away_goals m)] else [])
                      @ (if away_team_id m = tid then [(away_goals m, home_goals m)] else [])) ms)"

definition tally :: "(int \<times> int) list \<Rightarrow> Stats" where
  "tally rs =
     \<lparr> mp = int (length rs),
       w = int (length [r \<leftarrow> rs. fst r > snd r]),
       d = int (length [r \<leftarrow> rs. fst r = snd r]),
       l = int (length [r \<leftarrow> rs. fst r < snd r]),
       gf = sum_list (map fst rs),
       ga = sum_list (map snd rs) \<rparr>"

definition rows_for :: "Store \<Rightarrow> int \<Rightarrow> string \<Rightarrow> StandingsRow list" where
  "rows_for db season_arg stage_arg =
     [r \<leftarrow> standings db. s_season_year r = season_arg \<and> s_stage_code r = stage_arg]"

definition bump_all :: "Stats \<Rightarrow> (int \<times> int) list \<Rightarrow> Stats" where
  "bump_all row rs = foldl (\<lambda>r (f, a). bump r f a) row rs"

definition mkey :: "MatchResult \<Rightarrow> int \<times> string" where
  "mkey m = (season_year m, stage_code m)"

definition vtable :: "(int \<times> string) list \<Rightarrow> standings_data \<Rightarrow> int \<times> string \<Rightarrow> (int \<times> Stats) list" where
  "vtable tn sd k = (case map_of sd k of Some t \<Rightarrow> t | None \<Rightarrow> zero_table tn)"

definition team_tally :: "int \<Rightarrow> string \<Rightarrow> int \<Rightarrow> MatchResult list \<Rightarrow> Stats" where
  "team_tally season_arg stage_arg tid ms =
     tally (side_results tid (stage_matches season_arg stage_arg ms))"

definition expected_stats :: "int \<Rightarrow> MatchResult list \<Rightarrow> int \<times> string \<Rightarrow> int \<Rightarrow> Stats" where
  "expected_stats season_arg ms k tid =
     (if k = (season_arg, ''anual'')
      then add_stats (team_tally season_arg ''apertura'' tid ms)
             (team_tally season_arg ''clausura'' tid ms)
      else team_tally (fst k) (snd k) tid ms)"

definition table_rows ::
  "(int \<times> string) list \<Rightarrow> Aux \<Rightarrow> int \<Rightarrow> string \<Rightarrow> (int \<times> Stats) list \<Rightarrow> StandingsRow list" where
  "table_rows tn aux sn st table = sort_rows tn (map (standings_row aux sn st) table)"

definition all_stages :: "string list" where
  "all_stages = [''apertura'', ''clausura'', ''intermedio'', ''anual'']"

definition seeded_matches :: "Conn \<Rightarrow> int \<Rightarrow> MatchResult list \<Rightarrow> bool" where
  "seeded_matches conn season_arg ms \<longleftrightarrow>
     (\<forall>m \<in> set ms. season_year m = season_arg
        \<and> home_team_id m \<in> t_id ` set (teams (view conn))
        \<and> away_team_id m \<in> t_id ` set (teams (view conn)))"

definition expected_table :: "(int \<times> string) list \<Rightarrow> int \<Rightarrow> string \<Rightarrow> MatchResult list \<Rightarrow> (int \<times> Stats) list" where
  "expected_table tn season_arg stage_arg ms =
     map (\<lambda>tid. (tid, expected_stats season_arg ms (season_arg, stage_arg) tid)) (map fst tn)"

definition plays_in_stage :: "int \<Rightarrow> string \<Rightarrow> int \<Rightarrow> MatchResult list \<Rightarrow> bool" where
  "plays_in_stage season_arg stage_arg tid ms \<longleftrightarrow>
     (\<exists>m \<in> set ms. season_year m = season_arg
        \<and> stage_code m \<in> set (stages_for_query stage_arg)
        \<and> (home_team_id m = tid \<or> away_team_id m = tid))"

definition row_of :: "Store \<Rightarrow> int \<Rightarrow> string \<Rightarrow> int \<Rightarrow> StandingsRow list" where
  "row_of db season_arg stage_arg tid =
     [x \<leftarrow> standings db. s_season_year x = season_arg \<and> s_stage_code x = stage_arg
                          \<and> s_team_id x = tid]"

section \<open>Example data\<close>

definition example_teams :: "Team list" where
  "example_teams =
     [\<lparr> t_id = 1, t_name = ''Nacional'', t_short_name = ''NAC'', t_city = ''Montevideo'',
         t_stadium = ''Gran Parque Central'', t_logo_key = ''nacional'',
         t_is_placeholder = False \<rparr>,
      \<lparr> t_id = 2, t_name = ''Cerro'', t_short_name = ''CER'', t_city = ''Montevideo'',
         t_stadium = ''Troccoli'', t_logo_key = ''cerro'', t_is_placeholder = False \<rparr>,
      \<lparr> t_id = 3, t_name = ''Danubio'', t_short_name = ''DAN'', t_city = ''Montevideo'',
         t_stadium = ''Jardines'', t_logo_key = ''danubio'', t_is_placeholder = False \<rparr>]"

text \<open>One match of the 2024 apertura, Nacional 1 Cerro 0, with a goal for Nacional and a
  yellow card for Cerro; Danubio has no event.\<close>

definition example_store :: Store where
  "example_store =
     \<lparr> metadata = [(''schema_version'', ''3'')],
       teams = example_teams,
       seasons = [2024],
       stages = [(''apertura'', ''Torneo Apertura''), (''clausura'', ''Torneo Clausura''),
                 (''intermedio'', ''Torneo Intermedio''), (''anual'', ''Tabla Anual'')],
       players =
         [\<lparr> p_id = 1, p_full_name = ''Luis Mejia'', p_team_id = 1, p_position = Some ''GK'',
             p_nationality = Some ''UY'', p_birth_year = Some 1991 \<rparr>,
          \<lparr> p_id = 2, p_full_name = ''Agustin Miranda'', p_team_id = 2,
             p_position = Some ''FW'', p_nationality = Some ''UY'', p_birth_year = None \<rparr>],
       matches =
         [\<lparr> m_id = 1, m_season_year = 2024, m_stage_code = ''apertura'', m_round = ''1'',
             m_date = ''2024-02-10'', m_time = ''16:00'', m_home_team_id = 1,
             m_away_team_id = 2, m_home_goals = 1, m_away_goals = 0, m_home_xg = 1,
             m_away_xg = 0, m_attendance = 20000, m_venue = ''Gran Parque Central'',
             m_referee = ''Gustavo Tejera'' \<rparr>],
       match_events =
         [\<lparr> e_id = 1, e_match_id = 1, e_minute = 30, e_team_id = 1, e_player_id = Some 1,
             e_type = ''goal'', e_detail = [] \<rparr>,
          \<lparr> e_id = 2, e_match_id = 1, e_minute = 50, e_team_id = 2, e_player_id = Some 2,
             e_type = ''yellow'', e_detail = [] \<rparr>],
       standings =
         [\<lparr> s_season_year = 2024, s_stage_code = ''apertura'', s_team_id = 1, s_mp = 1,
             s_w = 1, s_d = 0, s_l = 0, s_gf = 1, s_ga = 0, s_gd = 1, s_pts = 3, s_ppg = 3,
             s_last5 = ''W'', s_top_scorer = [], s_goalkeeper = ''Luis Mejia'',
             s_avg_attendance = 20000 \<rparr>] \<rparr>"

definition example_conn :: Conn where
  "example_conn = \<lparr> disk = example_store, view = example_store \<rparr>"

definition example_helpers :: helpers where
  "example_helpers = (\<lambda>db season_arg stage_arg.
     \<lparr> last5_strings = Map.empty, top_scorer_by_team = Map.empty,
       avg_attendance_by_team = Map.empty, goalkeeper_map = Map.empty \<rparr>)"

definition example_match :: "int \<Rightarrow> string \<Rightarrow> int \<Rightarrow> int \<Rightarrow> int \<Rightarrow> int \<Rightarrow> MatchResult" where
  "example_match i stage_arg home away hg ag =
     \<lparr> match_id = i, season_year = 2024, stage_code = stage_arg, home_team_id = home,
       away_team_id = away, home_goals = hg, away_goals = ag, date = ''2024-02-10'' \<rparr>"

definition apertura_matches :: "MatchResult list" where
  "apertura_matches =
     [example_match 1 ''apertura'' 1 2 3 0, example_match 2 ''apertura'' 3 1 0 2,
      example_match 3 ''apertura'' 1 3 2 1, example_match 4 ''apertura'' 2 1 1 1,
      example_match 5 ''apertura'' 1 2 1 2]"

definition example_matches :: "MatchResult list" where
  "example_matches =
     apertura_matches
     @ [example_match 6 ''clausura'' 2 1 0 3, example_match 7 ''intermedio'' 2 3 1 0]"

definition summary :: "error + Conn \<Rightarrow> (string \<times> int \<times> int \<times> int \<times> int \<times> int \<times> int \<times> int \<times> int \<times> int \<times> rat) list" where
  "summary res =
     (case res of
        Inl err \<Rightarrow> []
      | Inr c \<Rightarrow> map (\<lambda>r. (s_stage_code r, s_team_id r, s_mp r, s_w r, s_d r, s_l r, s_gf r,
                              s_ga r, s_gd r, s_pts r, s_ppg r)) (standings (disk c)))"

definition ranks_before :: "int \<times> int \<times> int \<times> string \<Rightarrow> int \<times> int \<times> int \<times> string \<Rightarrow> bool" where
  "ranks_before a b \<longleftrightarrow>
     (case a of (p1, g1, f1, n1) \<Rightarrow> case b of (p2, g2, f2, n2) \<Rightarrow>
        p1 > p2 \<or> (p1 = p2 \<and> (g1 > g2 \<or> (g1 = g2 \<and> (f1 > f2 \<or> (f1 = f2 \<and> n1 \<le> n2))))))"

definition s_rank :: "(int \<times> string) list \<Rightarrow> StandingsRow \<Rightarrow> int \<times> int \<times> int \<times> string" where
  "s_rank team_names r =
     (s_pts r, s_gd r, s_gf r, get_or (map_of team_names) (s_team_id r) [])"

definition t_rank :: "TableRow \<Rightarrow> int \<times> int \<times> int \<times> string" where
  "t_rank r = (pts r, gd r, gf r, team r)"

definition in_rank_order :: "('a \<Rightarrow> int \<times> int \<times> int \<times> string) \<Rightarrow> 'a list \<Rightarrow> bool" where
  "in_rank_order rank rs \<longleftrightarrow>
     (\<forall>i j. i < j \<and> j < length rs \<longrightarrow> ranks_before (rank (rs ! i)) (rank (rs ! j)))"

definition tie_row :: "int \<Rightarrow> int \<Rightarrow> StandingsRow" where
  "tie_row tid goals_for =
     \<lparr> s_season_year = 2024, s_stage_code = ''apertura'', s_team_id = tid, s_mp = 4,
       s_w = 1, s_d = 1, s_l = 2, s_gf = goals_for, s_ga = goals_for, s_gd = 0, s_pts = 4,
       s_ppg = 1, s_last5 = ''WDLL'', s_top_scorer = [], s_goalkeeper = [],
       s_avg_attendance = 0 \<rparr>"

definition tie_store :: Store where
  "tie_store = example_store\<lparr> standings := [tie_row 3 3, tie_row 2 3, tie_row 1 5] \<rparr>"

definition named_rank_order :: "Team list \<Rightarrow> StandingsRow list \<Rightarrow> bool" where
  "named_rank_order ts rs \<longleftrightarrow>
     (\<forall>i j. i < j \<and> j < length rs \<longrightarrow>
        (\<forall>a \<in> set ts. \<forall>b \<in> set ts.
           t_id a = s_team_id (rs ! i) \<and> t_id b = s_team_id (rs ! j) \<longrightarrow>
           ranks_before (s_pts (rs ! i), s_gd (rs ! i), s_gf (rs ! i), t_name a)
                        (s_pts (rs ! j), s_gd (rs ! j), s_gf (rs ! j), t_name b)))"

definition tie_matches :: "MatchResult list" where
  "tie_matches =
     [example_match 1 ''apertura'' 1 2 2 2, example_match 2 ''apertura'' 3 2 1 1]"

definition stored_order :: "error + Conn \<Rightarrow> string \<Rightarrow> (string \<times> int \<times> int \<times> int) list" where
  "stored_order res stage_arg =
     (case res of
        Inl err \<Rightarrow> []
      | Inr c \<Rightarrow> concat (map (\<lambda>r. map (\<lambda>t. (t_name t, s_pts r, s_gd r, s_gf r))
                                      [t \<leftarrow> teams (disk c). t_id t = s_team_id r])
                            (rows_for (disk c) 2024 stage_arg)))"

record ScorerRow =
  sc_player_id :: int
  sc_player :: string
  sc_team_id :: int
  sc_team :: string
  sc_goals :: int

definition scorers_join ::
  "Store \<Rightarrow> int \<Rightarrow> string \<Rightarrow> (MatchEvent \<times> Match \<times> Player \<times> Team) list" where
  "scorers_join db season_arg stage_arg =
     [(e, m, p, t). e \<leftarrow> match_events db, m \<leftarrow> matches db, e_match_id e = m_id m,
                    p \<leftarrow> players db, e_player_id e = Some (p_id p),
                    t \<leftarrow> teams db, p_team_id p = t_id t,
                    m_season_year m = season_arg
                      \<and> m_stage_code m \<in> set (stages_for_query stage_arg)
                      \<and> e_type e = ''goal'']"

definition scorers_group_key :: "MatchEvent \<times> Match \<times> Player \<times> Team \<Rightarrow> int \<times> string" where
  "scorers_group_key = (\<lambda>(e, m, p, t). (p_id p, t_name t))"

definition scorer_row ::
  "(MatchEvent \<times> Match \<times> Player \<times> Team) list \<Rightarrow> MatchEvent \<times> Match \<times> Player \<times> Team
     \<Rightarrow> ScorerRow" where
  "scorer_row joined = (\<lambda>(e, m, p, t).
     \<lparr> sc_player_id = p_id p, sc_player = p_full_name p, sc_team_id = t_id t,
       sc_team = t_name t,
       sc_goals = int (length [x \<leftarrow> joined.
                          scorers_group_key x = scorers_group_key (e, m, p, t)]) \<rparr>)"

definition scorer_groups :: "Store \<Rightarrow> int \<Rightarrow> string \<Rightarrow> ScorerRow list" where
  "scorer_groups db season_arg stage_arg =
     (let joined = scorers_join db season_arg stage_arg
      in concat (map (\<lambda>g. case find (\<lambda>x. scorers_group_key x = g) joined of
                             None \<Rightarrow> []
                           | Some x \<Rightarrow> [scorer_row joined x])
                   (remdups (map scorers_group_key joined))))"

definition sql_limit :: "int \<Rightarrow> 'a list \<Rightarrow> 'a list" where
  "sql_limit n xs = (if n < 0 then xs else take (nat n) xs)"

definition list_scorers ::
  "(ScorerRow list \<Rightarrow> ScorerRow list) \<Rightarrow> Store \<Rightarrow> int \<Rightarrow> string \<Rightarrow> int \<Rightarrow> ScorerRow list" where
  "list_scorers arrange db season_arg stage_arg top_arg =
     sql_limit top_arg
       (sort_key (\<lambda>r. (- sc_goals r, sc_player r))
          (arrange (scorer_groups db season_arg stage_arg)))"

datatype api_error = RequestValidationError | HTTPException int string

definition resolve_params ::
  "Store \<Rightarrow> int option \<Rightarrow> string option \<Rightarrow> api_error + int \<times> string" where
  "resolve_params db season_opt stage_opt =
     (let resolved_season = (case season_opt of None \<Rightarrow> 2024
                             | Some y \<Rightarrow> if y = 0 then 2024 else y);
          resolved_stage = (case stage_opt of None \<Rightarrow> ''apertura''
                            | Some s \<Rightarrow> if s = [] then ''apertura'' else s)
      in if resolved_stage \<notin> fst ` set (stages db)
         then Inl (HTTPException 400 ''Etapa no soportada'')
         else if resolved_season \<notin> set (seasons db)
         then Inl (HTTPException 400 ''Temporada no soportada'')
         else Inr (resolved_season, resolved_stage))"

record ScorersResponse =
  r_season :: int
  r_stage :: string
  r_scorers :: "ScorerRow list"
  r_source :: string

definition api_scorers ::
  "(ScorerRow list \<Rightarrow> ScorerRow list) \<Rightarrow> Store \<Rightarrow> int option \<Rightarrow> string option \<Rightarrow> int
     \<Rightarrow> api_error + ScorersResponse" where
  "api_scorers arrange db season_opt stage_opt top_arg =
     (if top_arg < 1 \<or> 100 < top_arg then Inl RequestValidationError
      else case resolve_params db season_opt stage_opt of
             Inl err \<Rightarrow> Inl err
           | Inr (resolved_season, resolved_stage) \<Rightarrow>
               Inr \<lparr> r_season = resolved_season, r_stage = resolved_stage,
                     r_scorers = list_scorers arrange db resolved_season resolved_stage top_arg,
                     r_source = ''seed'' \<rparr>)"

definition goal_event :: "int \<Rightarrow> int \<Rightarrow> MatchEvent" where
  "goal_event i pid =
     \<lparr> e_id = i, e_match_id = 1, e_minute = 10 + i, e_team_id = (if pid < 3 then 1 else 2),
       e_player_id = Some pid, e_type = ''goal'', e_detail = [] \<rparr>"

definition scorer_match :: "int \<Rightarrow> int \<Rightarrow> string \<Rightarrow> Match" where
  "scorer_match i season_arg stage_arg =
     \<lparr> m_id = i, m_season_year = season_arg, m_stage_code = stage_arg, m_round = ''1'',
       m_date = ''2024-08-10'', m_time = ''16:00'', m_home_team_id = 1, m_away_team_id = 2,
       m_home_goals = 2, m_away_goals = 1, m_home_xg = 1, m_away_xg = 1,
       m_attendance = 9000, m_venue = ''Gran Parque Central'',
       m_referee = ''Gustavo Tejera'' \<rparr>"

definition scorer_player :: "int \<Rightarrow> string \<Rightarrow> int \<Rightarrow> Player" where
  "scorer_player pid name tid =
     \<lparr> p_id = pid, p_full_name = name, p_team_id = tid, p_position = Some ''FW'',
       p_nationality = Some ''UY'', p_birth_year = Some 1998 \<rparr>"

definition scorers_store :: Store where
  "scorers_store = example_store
     \<lparr> players := [scorer_player 1 ''Zapata'' 1, scorer_player 2 ''Mendez'' 1,
                   scorer_player 3 ''Alvez'' 2, scorer_player 4 ''Bueno'' 2],
       matches := matches example_store
         @ [scorer_match 2 2024 ''clausura'', scorer_match 3 2024 ''intermedio'',
            scorer_match 4 2023 ''apertura''],
       match_events :=
         map (\<lambda>i. goal_event i 1) [1, 2, 3, 4, 5]
         @ map (\<lambda>i. goal_event i 2) [6]
         @ map (\<lambda>i. goal_event i 3) [7, 8, 9, 10, 11]
         @ map (\<lambda>i. goal_event i 4) [12, 13, 14]
         @ map (\<lambda>i. (goal_event i 2) \<lparr> e_match_id := 2 \<rparr>) [15, 16]
         @ map (\<lambda>i. (goal_event i 4) \<lparr> e_match_id := 3 \<rparr>) [17]
         @ map (\<lambda>i. (goal_event i 2) \<lparr> e_match_id := 4 \<rparr>) [18] \<rparr>"

definition stage_covers :: "string \<Rightarrow> string \<Rightarrow> bool" where
  "stage_covers stage_arg code \<longleftrightarrow>
     (if stage_arg = ''anual'' then code = ''apertura'' \<or> code = ''clausura''
      else code = stage_arg)"

definition in_scope :: "Store \<Rightarrow> int \<Rightarrow> string \<Rightarrow> MatchEvent \<Rightarrow> bool" where
  "in_scope db season_arg stage_arg e \<longleftrightarrow>
     (\<exists>m \<in> set (matches db). m_id m = e_match_id e \<and> m_season_year m = season_arg
        \<and> stage_covers stage_arg (m_stage_code m))"

definition goals_of :: "Store \<Rightarrow> int \<Rightarrow> string \<Rightarrow> int \<Rightarrow> int" where
  "goals_of db season_arg stage_arg pid =
     int (length [e \<leftarrow> match_events db. e_type e = ''goal'' \<and> e_player_id e = Some pid
                                        \<and> in_scope db season_arg stage_arg e])"

definition primary_keys :: "Store \<Rightarrow> bool" where
  "primary_keys db \<longleftrightarrow>
     distinct (map t_id (teams db)) \<and> distinct (map p_id (players db))
     \<and> distinct (map m_id (matches db))"

definition event_join ::
  "Store \<Rightarrow> int \<Rightarrow> string \<Rightarrow> MatchEvent \<Rightarrow> (MatchEvent \<times> Match \<times> Player \<times> Team) list" where
  "event_join db season_arg stage_arg e =
     [(e, m, p, t). m \<leftarrow> matches db, e_match_id e = m_id m,
                    p \<leftarrow> players db, e_player_id e = Some (p_id p),
                    t \<leftarrow> teams db, p_team_id p = t_id t,
                    m_season_year m = season_arg
                      \<and> m_stage_code m \<in> set (stages_for_query stage_arg)
                      \<and> e_type e = ''goal'']"

definition scorer_order :: "ScorerRow list \<Rightarrow> bool" where
  "scorer_order rs \<longleftrightarrow>
     (\<forall>i j. i < j \<and> j < length rs \<longrightarrow>
        sc_goals (rs ! i) > sc_goals (rs ! j)
        \<or> (sc_goals (rs ! i) = sc_goals (rs ! j) \<and> sc_player (rs ! i) \<le> sc_player (rs ! j)))"

section \<open>Properties of the query layer\<close>

subsection \<open>Cards by team\<close>

lemma set_cards_join:
  "(e, m, t) \<in> set (cards_join db sn st) \<longleftrightarrow>
     e \<in> set (match_events db) \<and> m \<in> set (matches db) \<and> t \<in> set (teams db)
     \<and> e_match_id e = m_id m \<and> e_team_id e = t_id t
     \<and> m_season_year m = sn \<and> m_stage_code m \<in> set (stages_for_query st)"
  by (auto simp: cards_join_def)

lemma cards_row_team_ids:
  "c_team_id ` set (cards_by_team db sn st) = (\<lambda>(e, m, t). t_id t) ` set (cards_join db sn st)"
  by (force simp: cards_by_team_def Let_def cards_group_key_def image_iff split: prod.splits)

lemma cards_by_team_iff:
  "(\<exists>r \<in> set (cards_by_team db sn st). c_team_id r = tid) \<longleftrightarrow>
     (tid \<in> t_id ` set (teams db) \<and> has_event db sn st tid)"
proof -
  have "(\<exists>r \<in> set (cards_by_team db sn st). c_team_id r = tid)
          \<longleftrightarrow> tid \<in> c_team_id ` set (cards_by_team db sn st)"
    by auto
  also have "\<dots> \<longleftrightarrow> (\<exists>e m t. (e, m, t) \<in> set (cards_join db sn st) \<and> t_id t = tid)"
    unfolding cards_row_team_ids by force
  also have "\<dots> \<longleftrightarrow> (tid \<in> t_id ` set (teams db) \<and> has_event db sn st tid)"
    unfolding set_cards_join has_event_def by (auto simp: image_iff)
  finally show ?thesis .
qed

lemma cards_count_zero:
  assumes "r \<in> set (cards_by_team db sn st)"
    and "\<not> has_event_of_type db sn st (c_team_id r) ty"
  shows "length [x \<leftarrow> cards_join db sn st.
           cards_group_key x = (c_team_id r, c_team r, c_logo_key r) \<and> e_type (fst x) = ty] = 0"
  using assms(2) unfolding has_event_of_type_def length_0_conv filter_empty_conv
  by (auto simp: set_cards_join cards_group_key_def)

lemma cards_yellow_red:
  assumes "r \<in> set (cards_by_team db sn st)"
  shows "c_yellow r = int (length [x \<leftarrow> cards_join db sn st.
           cards_group_key x = (c_team_id r, c_team r, c_logo_key r)
           \<and> e_type (fst x) = ''yellow''])"
    and "c_red r = int (length [x \<leftarrow> cards_join db sn st.
           cards_group_key x = (c_team_id r, c_team r, c_logo_key r)
           \<and> e_type (fst x) = ''red''])"
  using assms by (auto simp: cards_by_team_def Let_def)

lemma discipline_teams:
  "map Equipo (discipline_table db sn st) = map c_team (cards_by_team db sn st)"
  by (simp add: discipline_table_def enrich_def Let_def comp_def)

text \<open>
  Claim C10. For every season and stage, \<^verbatim>\<open>cards_by_team\<close> has a row for a team of the
  store exactly when the team has at least one event, of whatever type, in the season's
  stage-expanded matches. A listed team without yellow cards shows \<open>yellow = 0\<close>, one
  without red cards \<open>red = 0\<close>; a team without events is not listed. The rows of
  \<^verbatim>\<open>discipline_table\<close> are those of \<^verbatim>\<open>cards_by_team\<close>, team for team.
\<close>

theorem cards_by_team_lists_teams_with_events:
  "((\<exists>r \<in> set (cards_by_team db sn st). c_team_id r = tid) \<longleftrightarrow>
      (tid \<in> t_id ` set (teams db) \<and> has_event db sn st tid))
   \<and> (\<forall>r \<in> set (cards_by_team db sn st).
        (\<not> has_event_of_type db sn st (c_team_id r) ''yellow'' \<longrightarrow> c_yellow r = 0)
        \<and> (\<not> has_event_of_type db sn st (c_team_id r) ''red'' \<longrightarrow> c_red r = 0))
   \<and> map Equipo (discipline_table db sn st) = map c_team (cards_by_team db sn st)"
proof (intro conjI ballI impI)
  show "(\<exists>r \<in> set (cards_by_team db sn st). c_team_id r = tid) \<longleftrightarrow>
      (tid \<in> t_id ` set (teams db) \<and> has_event db sn st tid)"
    by (rule cards_by_team_iff)
next
  fix r assume "r \<in> set (cards_by_team db sn st)"
    and "\<not> has_event_of_type db sn st (c_team_id r) ''yellow''"
  then show "c_yellow r = 0"
    using cards_yellow_red(1) cards_count_zero by simp
next
  fix r assume "r \<in> set (cards_by_team db sn st)"
    and "\<not> has_event_of_type db sn st (c_team_id r) ''red''"
  then show "c_red r = 0"
    using cards_yellow_red(2) cards_count_zero by simp
next
  show "map Equipo (discipline_table db sn st) = map c_team (cards_by_team db sn st)"
    by (rule discipline_teams)
qed

text \<open>In the example store Nacional has a goal and no card, Cerro a yellow card, and
  Danubio no event: the first two are listed, Nacional with zero counts, Danubio is not.\<close>

theorem cards_by_team_lists_teams_with_events_witness:
  "cards_by_team example_store 2024 ''anual'' =
     [\<lparr> c_team_id = 2, c_team = ''Cerro'', c_logo_key = ''cerro'', c_yellow = 1, c_red = 0 \<rparr>,
      \<lparr> c_team_id = 1, c_team = ''Nacional'', c_logo_key = ''nacional'', c_yellow = 0,
         c_red = 0 \<rparr>]
   \<and> has_event example_store 2024 ''anual'' 1
   \<and> \<not> has_event_of_type example_store 2024 ''anual'' 1 ''yellow''
   \<and> 3 \<in> t_id ` set (teams example_store)
   \<and> \<not> has_event example_store 2024 ''anual'' 3
   \<and> \<not> (\<exists>r \<in> set (cards_by_team example_store 2024 ''anual''). c_team_id r = 3)
   \<and> map Equipo (discipline_table example_store 2024 ''anual'') = [''Cerro'', ''Nacional'']"
proof -
  have rows: "cards_by_team example_store 2024 ''anual'' =
     [\<lparr> c_team_id = 2, c_team = ''Cerro'', c_logo_key = ''cerro'', c_yellow = 1, c_red = 0 \<rparr>,
      \<lparr> c_team_id = 1, c_team = ''Nacional'', c_logo_key = ''nacional'', c_yellow = 0,
         c_red = 0 \<rparr>]"
    by code_simp
  have e1: "has_event example_store 2024 ''anual'' 1" by code_simp
  have y1: "\<not> has_event_of_type example_store 2024 ''anual'' 1 ''yellow''" by code_simp
  have k3: "3 \<in> t_id ` set (teams example_store)" by code_simp
  have e3: "\<not> has_event example_store 2024 ''anual'' 3" by code_simp
  note inst = cards_by_team_lists_teams_with_events [of example_store 2024 "''anual''" 3]
  from inst e3 have absent:
    "\<not> (\<exists>r \<in> set (cards_by_team example_store 2024 ''anual''). c_team_id r = 3)"
    by blast
  from inst rows have disc:
    "map Equipo (discipline_table example_store 2024 ''anual'') = [''Cerro'', ''Nacional'']"
    by simp
  from rows e1 y1 k3 e3 absent disc show ?thesis by blast
qed

subsection \<open>The ranked table and the clock\<close>

text \<open>
  Claim C8, as stated: two calls of \<^verbatim>\<open>compute_table\<close> for the same season and stage,
  with no reseed between them, return equal values. The value carries \<open>updated_at\<close>, the
  reading of the clock at the call, so two calls at different times differ.
\<close>

theorem compute_table_twice_counterexample:
  "compute_table example_store ''2024-03-01T10:00:00'' 2024 ''apertura''
     \<noteq> compute_table example_store ''2024-03-01T10:00:01'' 2024 ''apertura''"
  by (simp add: compute_table_def)

text \<open>
  Claim C8, amended: the second call returns the value of the first except for
  \<open>updated_at\<close>, which is the time of the second call; season, stage, rows and source
  are equal.
\<close>

theorem compute_table_twice:
  "compute_table db now2 sn st = (compute_table db now1 sn st)\<lparr>updated_at := now2\<rparr>
   \<and> rows (compute_table db now2 sn st) = rows (compute_table db now1 sn st)
   \<and> updated_at (compute_table db now2 sn st) = now2"
  by (simp add: compute_table_def)

section \<open>Properties of the standings aggregator\<close>

lemma foldl_update_keys:
  "fst ` set (foldl (\<lambda>acc (k, v). AList.update k v acc) acc kvs) = fst ` set acc \<union> fst ` set kvs"
proof (induction kvs arbitrary: acc)
  case Nil
  show ?case by simp
next
  case (Cons kv kvs)
  obtain k v where kv: "kv = (k, v)" by (cases kv)
  have "fst ` set (foldl (\<lambda>acc (k, v). AList.update k v acc) acc (kv # kvs))
          = fst ` set (AList.update k v acc) \<union> fst ` set kvs"
    by (simp add: kv Cons.IH)
  also have "\<dots> = fst ` set acc \<union> fst ` set (kv # kvs)"
    by (simp add: dom_update kv)
  finally show ?case .
qed

lemma foldl_update_distinct:
  "distinct (map fst acc) \<Longrightarrow>
   distinct (map fst (foldl (\<lambda>acc (k, v). AList.update k v acc) acc kvs))"
  by (induction kvs arbitrary: acc) (auto simp: distinct_update split: prod.splits)

lemma dict_of_keys: "fst ` set (dict_of kvs) = fst ` set kvs"
  by (simp add: dict_of_def foldl_update_keys)

lemma dict_of_distinct: "distinct (map fst (dict_of kvs))"
  by (simp add: dict_of_def foldl_update_distinct)

lemma team_names_keys: "fst ` set (team_names_of db) = t_id ` set (teams db)"
  by (simp add: team_names_of_def dict_of_keys image_image)

lemma team_names_distinct: "distinct (map fst (team_names_of db))"
  by (simp add: team_names_of_def dict_of_distinct)

lemma zero_table_keys: "map fst (zero_table tn) = map fst tn"
  by (simp add: zero_table_def split_def)

lemma zero_table_lookup:
  "map_of (zero_table tn) tid = (if tid \<in> fst ` set tn then Some zero_stats else None)"
  by (induction tn) (auto simp: zero_table_def)

lemma bump_all_Nil [simp]: "bump_all row [] = row"
  by (simp add: bump_all_def)

lemma bump_all_Cons [simp]: "bump_all row ((f, a) # rs) = bump_all (bump row f a) rs"
  by (simp add: bump_all_def)

lemma bump_all_append [simp]: "bump_all row (rs @ rs') = bump_all (bump_all row rs) rs'"
  by (simp add: bump_all_def)

lemma add_stats_zero [simp]: "add_stats row zero_stats = row" "add_stats zero_stats row = row"
  by (simp_all add: add_stats_def zero_stats_def)

lemma tally_Nil [simp]: "tally [] = zero_stats"
  by (simp add: tally_def zero_stats_def)

lemma bump_tally: "bump row f a = add_stats row (tally [(f, a)])"
  by (auto simp: bump_def add_stats_def tally_def Let_def)

lemma add_stats_assoc: "add_stats (add_stats a b) c = add_stats a (add_stats b c)"
  by (simp add: add_stats_def)

lemma tally_Cons: "tally (r # rs) = add_stats (tally [r]) (tally rs)"
  by (auto simp: tally_def add_stats_def)

lemma tally_append: "tally (rs @ rs') = add_stats (tally rs) (tally rs')"
  by (auto simp: tally_def add_stats_def)

lemma bump_all_tally: "bump_all row rs = add_stats row (tally rs)"
proof (induction rs arbitrary: row)
  case Nil
  show ?case by simp
next
  case (Cons r rs)
  obtain f a where r: "r = (f, a)" by (cases r)
  have "bump_all row (r # rs) = add_stats (add_stats row (tally [(f, a)])) (tally rs)"
    using Cons.IH by (simp add: r bump_tally)
  also have "\<dots> = add_stats row (tally (r # rs))"
    by (simp add: add_stats_assoc r tally_Cons [of "(f, a)" rs])
  finally show ?case .
qed

lemma update_side_Inr:
  assumes "update_side table tid f a = Inr table'"
  shows "map fst table' = map fst table"
    and "map_of table' x =
           (if x = tid then map_option (\<lambda>r. bump r f a) (map_of table x) else map_of table x)"
    and "tid \<in> fst ` set table"
proof -
  from assms obtain row where row: "map_of table tid = Some row"
    and t': "table' = AList.update tid (bump row f a) table"
    by (auto simp: update_side_def split: option.splits)
  from row show in_keys: "tid \<in> fst ` set table"
    by (metis domI dom_map_of_conv_image_fst)
  then show "map fst table' = map fst table"
    by (simp add: t' update_keys)
  show "map_of table' x =
           (if x = tid then map_option (\<lambda>r. bump r f a) (map_of table x) else map_of table x)"
    by (simp add: t' update_conv' row)
qed

lemma update_side_total:
  assumes "tid \<in> fst ` set table"
  shows "\<exists>table'. update_side table tid f a = Inr table'"
proof -
  from assms obtain row where "map_of table tid = Some row"
    by (metis domD dom_map_of_conv_image_fst)
  then show ?thesis by (simp add: update_side_def)
qed

lemma side_results_single:
  "side_results tid [m] =
     (if home_team_id m = tid then [(home_goals m, away_goals m)] else [])
     @ (if away_team_id m = tid then [(away_goals m, home_goals m)] else [])"
  by (simp add: side_results_def)

lemma side_results_Nil [simp]: "side_results tid [] = []"
  by (simp add: side_results_def)

lemma side_results_append: "side_results tid (ms @ ms') = side_results tid ms @ side_results tid ms'"
  by (simp add: side_results_def)

lemma side_results_Cons: "side_results tid (m # ms) = side_results tid [m] @ side_results tid ms"
  by (simp add: side_results_def)

lemma fold_match_Inr:
  assumes ok: "fold_match tn sd m = Inr sd'"
  shows "map fst sd' = (if mkey m \<in> set (map fst sd) then map fst sd else map fst sd @ [mkey m])"
    and "map fst (vtable tn sd' k) = map fst (vtable tn sd k)"
    and "map_of (vtable tn sd' k) tid =
           map_option (\<lambda>r. bump_all r (side_results tid [m' \<leftarrow> [m]. mkey m' = k]))
             (map_of (vtable tn sd k) tid)"
    and "home_team_id m \<in> fst ` set (vtable tn sd (mkey m))"
    and "away_team_id m \<in> fst ` set (vtable tn sd (mkey m))"
proof -
  define key where "key = mkey m"
  define sd1 where "sd1 = (if key \<in> fst ` set sd then sd else AList.update key (zero_table tn) sd)"
  have sd1_lookup: "map_of sd1 key = Some (vtable tn sd key)"
  proof (cases "key \<in> fst ` set sd")
    case True
    then obtain t where "map_of sd key = Some t"
      by (metis domD dom_map_of_conv_image_fst)
    then show ?thesis using True by (simp add: sd1_def vtable_def)
  next
    case False
    then have "map_of sd key = None"
      by (metis domIff dom_map_of_conv_image_fst)
    then show ?thesis using False by (simp add: sd1_def vtable_def update_conv')
  qed
  have sd1_other: "map_of sd1 k' = map_of sd k'" if "k' \<noteq> key" for k'
    using that by (simp add: sd1_def update_conv')
  have sd1_keys: "map fst sd1 = (if key \<in> set (map fst sd) then map fst sd else map fst sd @ [key])"
    by (simp add: sd1_def update_keys)
  have key_in: "key \<in> set (map fst sd1)"
    by (simp add: sd1_keys)
  from ok obtain table1 table2 where
    t1: "update_side (vtable tn sd key) (home_team_id m) (home_goals m) (away_goals m) = Inr table1"
    and t2: "update_side table1 (away_team_id m) (away_goals m) (home_goals m) = Inr table2"
    and sd': "sd' = AList.update key table2 sd1"
    unfolding fold_match_def Let_def mkey_def [symmetric] key_def [symmetric] sd1_def [symmetric]
    by (auto simp: sd1_lookup split: sum.splits)
  show "map fst sd' = (if mkey m \<in> set (map fst sd) then map fst sd else map fst sd @ [mkey m])"
    using key_in by (simp add: sd' update_keys sd1_keys key_def [symmetric])
  have v_key: "vtable tn sd' key = table2"
    by (simp add: vtable_def sd' update_conv')
  have v_other: "vtable tn sd' k' = vtable tn sd k'" if "k' \<noteq> key" for k'
    using that by (simp add: vtable_def sd' update_conv' sd1_other)
  show "map fst (vtable tn sd' k) = map fst (vtable tn sd k)"
    using update_side_Inr(1) [OF t1] update_side_Inr(1) [OF t2]
    by (cases "k = key") (simp_all add: v_key v_other)
  show "home_team_id m \<in> fst ` set (vtable tn sd (mkey m))"
    using update_side_Inr(3) [OF t1] by (simp add: key_def)
  have "away_team_id m \<in> fst ` set table1"
    using update_side_Inr(3) [OF t2] .
  also have "fst ` set table1 = fst ` set (vtable tn sd key)"
    using update_side_Inr(1) [OF t1] by (metis set_map)
  finally show "away_team_id m \<in> fst ` set (vtable tn sd (mkey m))"
    by (simp add: key_def)
  show "map_of (vtable tn sd' k) tid =
           map_option (\<lambda>r. bump_all r (side_results tid [m' \<leftarrow> [m]. mkey m' = k]))
             (map_of (vtable tn sd k) tid)"
  proof (cases "k = key")
    case False
    then have "[m' \<leftarrow> [m]. mkey m' = k] = []" by (auto simp: key_def)
    then show ?thesis using False by (simp add: v_other option.map_ident)
  next
    case True
    have mk: "mkey m = key" by (simp add: key_def)
    have A: "map_of table2 x =
        (if x = away_team_id m then map_option (\<lambda>r. bump r (away_goals m) (home_goals m)) (map_of table1 x)
         else map_of table1 x)" for x
      using update_side_Inr(2) [OF t2] .
    have B: "map_of table1 x =
        (if x = home_team_id m then map_option (\<lambda>r. bump r (home_goals m) (away_goals m)) (map_of (vtable tn sd key) x)
         else map_of (vtable tn sd key) x)" for x
      using update_side_Inr(2) [OF t1] .
    have "map_of table2 tid =
           map_option (\<lambda>r. bump_all r (side_results tid [m])) (map_of (vtable tn sd key) tid)"
      by (cases "map_of (vtable tn sd key) tid"; cases "tid = home_team_id m";
          cases "tid = away_team_id m")
         (simp_all add: A B side_results_single)
    then show ?thesis
      by (simp add: True v_key mk)
  qed
qed

lemma fold_match_keys_set:
  assumes "fold_match tn sd m = Inr sd'"
  shows "set (map fst sd') = insert (mkey m) (set (map fst sd))"
    and "distinct (map fst sd) \<Longrightarrow> distinct (map fst sd')"
  using fold_match_Inr(1) [OF assms] by (force split: if_splits)+

lemma fold_match_total:
  assumes "home_team_id m \<in> fst ` set (vtable tn sd (mkey m))"
    and "away_team_id m \<in> fst ` set (vtable tn sd (mkey m))"
  shows "\<exists>sd'. fold_match tn sd m = Inr sd'"
proof -
  define key where "key = mkey m"
  define sd1 where "sd1 = (if key \<in> fst ` set sd then sd else AList.update key (zero_table tn) sd)"
  have sd1_lookup: "map_of sd1 key = Some (vtable tn sd key)"
  proof (cases "key \<in> fst ` set sd")
    case True
    then obtain t where "map_of sd key = Some t"
      by (metis domD dom_map_of_conv_image_fst)
    then show ?thesis using True by (simp add: sd1_def vtable_def)
  next
    case False
    then have "map_of sd key = None"
      by (metis domIff dom_map_of_conv_image_fst)
    then show ?thesis using False by (simp add: sd1_def vtable_def update_conv')
  qed
  from assms(1) obtain table1 where
    t1: "update_side (vtable tn sd key) (home_team_id m) (home_goals m) (away_goals m) = Inr table1"
    using update_side_total unfolding key_def by blast
  have "fst ` set table1 = fst ` set (vtable tn sd key)"
    using update_side_Inr(1) [OF t1] by (metis set_map)
  with assms(2) obtain table2 where
    t2: "update_side table1 (away_team_id m) (away_goals m) (home_goals m) = Inr table2"
    using update_side_total unfolding key_def by blast
  show ?thesis
    unfolding fold_match_def Let_def mkey_def [symmetric] key_def [symmetric] sd1_def [symmetric]
    by (simp add: sd1_lookup t1 t2)
qed

lemma fold_matches_Inr:
  assumes "fold_matches tn sd ms = Inr sd'"
  shows "set (map fst sd') = set (map fst sd) \<union> mkey ` set ms
    \<and> (distinct (map fst sd) \<longrightarrow> distinct (map fst sd'))
    \<and> (\<forall>k. map fst (vtable tn sd' k) = map fst (vtable tn sd k))
    \<and> (\<forall>k tid. map_of (vtable tn sd' k) tid =
           map_option (\<lambda>r. bump_all r (side_results tid [m \<leftarrow> ms. mkey m = k]))
             (map_of (vtable tn sd k) tid))"
  using assms
proof (induction ms arbitrary: sd)
  case Nil
  then show ?case by (simp add: option.map_ident)
next
  case (Cons m ms)
  from Cons.prems obtain sd1 where step: "fold_match tn sd m = Inr sd1"
    and rest: "fold_matches tn sd1 ms = Inr sd'"
    by (auto split: sum.splits)
  note IH = Cons.IH [OF rest]
  have keys: "set (map fst sd') = set (map fst sd) \<union> mkey ` set (m # ms)"
    using IH fold_match_keys_set(1) [OF step] by auto
  have dist: "distinct (map fst sd) \<longrightarrow> distinct (map fst sd')"
    using IH fold_match_keys_set(2) [OF step] by blast
  have tkeys: "map fst (vtable tn sd' k) = map fst (vtable tn sd k)" for k
  proof -
    have "map fst (vtable tn sd' k) = map fst (vtable tn sd1 k)"
      using IH by blast
    also have "\<dots> = map fst (vtable tn sd k)"
      by (rule fold_match_Inr(2) [OF step])
    finally show ?thesis .
  qed
  have look: "map_of (vtable tn sd' k) tid =
           map_option (\<lambda>r. bump_all r (side_results tid [m' \<leftarrow> m # ms. mkey m' = k]))
             (map_of (vtable tn sd k) tid)" for k tid
  proof -
    have "map_of (vtable tn sd' k) tid =
           map_option (\<lambda>r. bump_all r (side_results tid [m' \<leftarrow> ms. mkey m' = k]))
             (map_of (vtable tn sd1 k) tid)"
      using IH by blast
    also have "map_of (vtable tn sd1 k) tid =
           map_option (\<lambda>r. bump_all r (side_results tid [m' \<leftarrow> [m]. mkey m' = k]))
             (map_of (vtable tn sd k) tid)"
      by (rule fold_match_Inr(3) [OF step])
    finally have "map_of (vtable tn sd' k) tid =
           map_option (\<lambda>r. bump_all r (side_results tid [m' \<leftarrow> [m]. mkey m' = k]
                                          @ side_results tid [m' \<leftarrow> ms. mkey m' = k]))
             (map_of (vtable tn sd k) tid)"
      by (simp add: option.map_comp comp_def)
    moreover have "side_results tid [m' \<leftarrow> m # ms. mkey m' = k]
        = side_results tid [m' \<leftarrow> [m]. mkey m' = k] @ side_results tid [m' \<leftarrow> ms. mkey m' = k]"
      by (simp add: side_results_def)
    ultimately show ?thesis by simp
  qed
  from keys dist tkeys look show ?case by blast
qed

lemma fold_matches_total:
  assumes "\<forall>m \<in> set ms. home_team_id m \<in> K \<and> away_team_id m \<in> K"
    and "\<forall>k. fst ` set (vtable tn sd k) = K"
  shows "\<exists>sd'. fold_matches tn sd ms = Inr sd'"
  using assms
proof (induction ms arbitrary: sd)
  case Nil
  show ?case by simp
next
  case (Cons m ms)
  have "fst ` set (vtable tn sd (mkey m)) = K"
    using Cons.prems(2) by blast
  with Cons.prems(1) obtain sd1 where step: "fold_match tn sd m = Inr sd1"
    using fold_match_total [of m tn sd] by auto
  have "fst ` set (vtable tn sd1 k) = K" for k
    using fold_match_Inr(2) [OF step, of k] Cons.prems(2) by (metis set_map)
  with Cons.IH [of sd1] Cons.prems(1) obtain sd' where "fold_matches tn sd1 ms = Inr sd'"
    by auto
  with step show ?case by simp
qed

lemma fold_matches_known:
  assumes "fold_matches tn sd ms = Inr sd'"
    and "\<forall>k. fst ` set (vtable tn sd k) = K"
  shows "\<forall>m \<in> set ms. home_team_id m \<in> K \<and> away_team_id m \<in> K"
  using assms
proof (induction ms arbitrary: sd)
  case Nil
  show ?case by simp
next
  case (Cons m ms)
  from Cons.prems obtain sd1 where step: "fold_match tn sd m = Inr sd1"
    and rest: "fold_matches tn sd1 ms = Inr sd'"
    by (auto split: sum.splits)
  have K1: "fst ` set (vtable tn sd1 k) = K" for k
    using fold_match_Inr(2) [OF step, of k] Cons.prems(2) by (metis set_map)
  have "home_team_id m \<in> K \<and> away_team_id m \<in> K"
    using fold_match_Inr(4,5) [OF step] Cons.prems(2) by simp
  moreover have "\<forall>m \<in> set ms. home_team_id m \<in> K \<and> away_team_id m \<in> K"
    using Cons.IH [OF rest] K1 by simp
  ultimately show ?case by simp
qed

lemma add_table_Inr:
  assumes "distinct (map fst table)" and "fst ` set table \<subseteq> fst ` set annual"
  shows "\<exists>annual'. add_table annual table = Inr annual'
           \<and> map fst annual' = map fst annual
           \<and> (\<forall>tid. map_of annual' tid =
                (case map_of table tid of
                   None \<Rightarrow> map_of annual tid
                 | Some st \<Rightarrow> map_option (\<lambda>t. add_stats t st) (map_of annual tid)))"
  using assms
proof (induction table arbitrary: annual)
  case Nil
  show ?case by simp
next
  case (Cons p table)
  obtain tid0 st0 where p: "p = (tid0, st0)" by (cases p)
  from Cons.prems(2) have "tid0 \<in> fst ` set annual" by (simp add: p)
  then obtain target where target: "map_of annual tid0 = Some target"
    by (metis domD dom_map_of_conv_image_fst)
  define annual1 where "annual1 = AList.update tid0 (add_stats target st0) annual"
  have keys1: "map fst annual1 = map fst annual"
    using \<open>tid0 \<in> fst ` set annual\<close> by (simp add: annual1_def update_keys)
  then have sub1: "fst ` set table \<subseteq> fst ` set annual1"
    using Cons.prems(2) by (metis (no_types, lifting) list.set_map set_subset_Cons subset_trans image_mono)
  from Cons.prems(1) have dist: "distinct (map fst table)" and notin: "tid0 \<notin> fst ` set table"
    by (auto simp: p)
  from Cons.IH [OF dist sub1] obtain annual' where
    run: "add_table annual1 table = Inr annual'"
    and keys': "map fst annual' = map fst annual1"
    and look': "\<And>tid. map_of annual' tid =
                (case map_of table tid of
                   None \<Rightarrow> map_of annual1 tid
                 | Some st \<Rightarrow> map_option (\<lambda>t. add_stats t st) (map_of annual1 tid))"
    by blast
  have none0: "map_of table tid0 = None"
    using notin by (metis domIff dom_map_of_conv_image_fst)
  have "add_table annual (p # table) = Inr annual'"
    by (simp add: p target annual1_def [symmetric] run)
  moreover have "map fst annual' = map fst annual"
    by (simp add: keys' keys1)
  moreover have "map_of annual' tid =
                (case map_of (p # table) tid of
                   None \<Rightarrow> map_of annual tid
                 | Some st \<Rightarrow> map_option (\<lambda>t. add_stats t st) (map_of annual tid))" for tid
  proof (cases "tid = tid0")
    case True
    then show ?thesis
      by (simp add: look' none0 p annual1_def update_conv' target)
  next
    case False
    then show ?thesis
      by (simp add: look' p annual1_def update_conv' split: option.splits)
  qed
  ultimately show ?case by blast
qed

lemma vtable_lookup: "k \<in> set (map fst sd) \<Longrightarrow> map_of sd k = Some (vtable tn sd k)"
proof -
  assume "k \<in> set (map fst sd)"
  then obtain t where "map_of sd k = Some t"
    by (metis domD dom_map_of_conv_image_fst set_map)
  then show ?thesis by (simp add: vtable_def)
qed

lemma stage_matches_mkey: "[m \<leftarrow> ms. mkey m = (sn, st)] = stage_matches sn st ms"
  by (simp add: stage_matches_def mkey_def)

lemma vtable_sd0:
  "vtable tn (map (\<lambda>stage_arg. ((sn, stage_arg), zero_table tn)) sts) k = zero_table tn"
  by (induction sts) (auto simp: vtable_def)

lemma rollup_total:
  assumes ap_in: "(sn, ''apertura'') \<in> set (map fst sd1)"
    and cl_in: "(sn, ''clausura'') \<in> set (map fst sd1)"
    and tk1: "\<And>k'. map fst (vtable tn sd1 k') = map fst tn"
    and dist: "distinct (map fst tn)"
  shows "\<exists>annual2.
           rollup_stages sn (AList.update (sn, ''anual'') (zero_table tn) sd1)
             [''apertura'', ''clausura''] = Inr (AList.update (sn, ''anual'') annual2 sd1)
         \<and> map fst annual2 = map fst tn
         \<and> (\<forall>x a c. map_of (vtable tn sd1 (sn, ''apertura'')) x = Some a
                \<longrightarrow> map_of (vtable tn sd1 (sn, ''clausura'')) x = Some c
                \<longrightarrow> map_of annual2 x = Some (add_stats a c))"
proof -
  define akey where "akey = (sn, ''anual'')"
  define sd1a where "sd1a = AList.update akey (zero_table tn) sd1"
  define ap where "ap = vtable tn sd1 (sn, ''apertura'')"
  define cl where "cl = vtable tn sd1 (sn, ''clausura'')"
  have ap_ne: "(sn, ''apertura'') \<noteq> akey" and cl_ne: "(sn, ''clausura'') \<noteq> akey"
    by (simp_all add: akey_def)
  have l_ap: "map_of sd1a (sn, ''apertura'') = Some ap"
    using vtable_lookup [OF ap_in, of tn] ap_ne by (simp add: sd1a_def update_conv' ap_def)
  have l_an: "map_of sd1a akey = Some (zero_table tn)"
    by (simp add: sd1a_def update_conv')
  have d_ap: "distinct (map fst ap)" and d_cl: "distinct (map fst cl)"
    using dist by (simp_all add: ap_def cl_def tk1)
  have "fst ` set ap \<subseteq> fst ` set (zero_table tn)"
    using tk1 [of "(sn, ''apertura'')"] zero_table_keys [of tn] unfolding ap_def
    by (metis set_map subset_refl)
  from add_table_Inr [OF d_ap this] obtain annual1 where
    a1: "add_table (zero_table tn) ap = Inr annual1"
    and a1k: "map fst annual1 = map fst (zero_table tn)"
    and a1l: "\<And>x. map_of annual1 x =
                (case map_of ap x of
                   None \<Rightarrow> map_of (zero_table tn) x
                 | Some st \<Rightarrow> map_option (\<lambda>t. add_stats t st) (map_of (zero_table tn) x))"
    by blast
  define sd1b where "sd1b = AList.update akey annual1 sd1a"
  have l_cl: "map_of sd1b (sn, ''clausura'') = Some cl"
    using vtable_lookup [OF cl_in, of tn] cl_ne
    by (simp add: sd1b_def sd1a_def update_conv' cl_def)
  have l_an1: "map_of sd1b akey = Some annual1"
    by (simp add: sd1b_def update_conv')
  have "fst ` set cl \<subseteq> fst ` set annual1"
    using tk1 [of "(sn, ''clausura'')"] zero_table_keys [of tn] a1k unfolding cl_def
    by (metis set_map subset_refl)
  from add_table_Inr [OF d_cl this] obtain annual2 where
    a2: "add_table annual1 cl = Inr annual2"
    and a2k: "map fst annual2 = map fst annual1"
    and a2l: "\<And>x. map_of annual2 x =
                (case map_of cl x of
                   None \<Rightarrow> map_of annual1 x
                 | Some st \<Rightarrow> map_option (\<lambda>t. add_stats t st) (map_of annual1 x))"
    by blast
  have "AList.update akey annual2 sd1b = AList.update akey annual2 sd1"
    by (simp add: sd1b_def sd1a_def)
  then have run: "rollup_stages sn sd1a [''apertura'', ''clausura'']
                 = Inr (AList.update akey annual2 sd1)"
    by (simp add: l_ap l_an [unfolded akey_def] a1 sd1b_def [symmetric, unfolded akey_def]
          l_cl l_an1 [unfolded akey_def] a2 akey_def)
  have look: "map_of annual2 x = Some (add_stats a c)"
    if "map_of ap x = Some a" and "map_of cl x = Some c" for x a c
  proof -
    from that(1) have "x \<in> fst ` set ap"
      by (metis domI dom_map_of_conv_image_fst)
    then have "x \<in> fst ` set tn"
      using tk1 [of "(sn, ''apertura'')"] unfolding ap_def by (metis set_map)
    then show ?thesis
      using that by (simp add: a2l a1l zero_table_lookup)
  qed
  show ?thesis
  proof (intro exI [of _ annual2] conjI allI impI)
    show "rollup_stages sn (AList.update (sn, ''anual'') (zero_table tn) sd1)
             [''apertura'', ''clausura''] = Inr (AList.update (sn, ''anual'') annual2 sd1)"
      using run by (simp add: sd1a_def akey_def)
    show "map fst annual2 = map fst tn"
      by (simp add: a2k a1k zero_table_keys)
    fix x a c
    assume "map_of (vtable tn sd1 (sn, ''apertura'')) x = Some a"
      and "map_of (vtable tn sd1 (sn, ''clausura'')) x = Some c"
    then show "map_of annual2 x = Some (add_stats a c)"
      using look by (simp add: ap_def cl_def)
  qed
qed

lemma compute_standings_data_Inr:
  assumes ok: "compute_standings_data tn sn ms = Inr sd2"
    and dist: "distinct (map fst tn)"
  shows "set (map fst sd2) =
           {(sn, ''apertura''), (sn, ''clausura''), (sn, ''intermedio''), (sn, ''anual'')}
           \<union> mkey ` set ms"
    and "distinct (map fst sd2)"
    and "map fst (vtable tn sd2 k) = map fst tn"
    and "tid \<in> fst ` set tn \<Longrightarrow> map_of (vtable tn sd2 k) tid = Some (expected_stats sn ms k tid)"
    and "\<forall>m \<in> set ms. home_team_id m \<in> fst ` set tn \<and> away_team_id m \<in> fst ` set tn"
proof -
  define sd0 where "sd0 = map (\<lambda>stage_arg. ((sn, stage_arg), zero_table tn))
                  [''apertura'', ''clausura'', ''intermedio'']"
  define akey where "akey = (sn, ''anual'')"
  from ok obtain sd1 where fold: "fold_matches tn sd0 ms = Inr sd1"
    and roll: "rollup_stages sn (AList.update akey (zero_table tn) sd1) [''apertura'', ''clausura'']
                 = Inr sd2"
    unfolding compute_standings_data_def Let_def sd0_def [symmetric] akey_def [symmetric]
    by (auto split: sum.splits)
  have v0: "vtable tn sd0 k' = zero_table tn" for k'
    unfolding sd0_def by (rule vtable_sd0)
  have keys0: "map fst sd0 = [(sn, ''apertura''), (sn, ''clausura''), (sn, ''intermedio'')]"
    by (simp add: sd0_def)
  note F = fold_matches_Inr [OF fold]
  have keys1: "set (map fst sd1) = set (map fst sd0) \<union> mkey ` set ms" using F by blast
  have dist1: "distinct (map fst sd1)" using F keys0 by simp
  have tk1: "map fst (vtable tn sd1 k') = map fst tn" for k'
  proof -
    have "map fst (vtable tn sd1 k') = map fst (vtable tn sd0 k')" using F by blast
    then show ?thesis by (simp add: v0 zero_table_keys)
  qed
  have look1: "map_of (vtable tn sd1 (sn', st')) x =
       (if x \<in> fst ` set tn then Some (team_tally sn' st' x ms) else None)" for sn' st' x
  proof -
    have "map_of (vtable tn sd1 (sn', st')) x =
           map_option (\<lambda>r. bump_all r (side_results x [m \<leftarrow> ms. mkey m = (sn', st')]))
             (map_of (vtable tn sd0 (sn', st')) x)"
      using F by blast
    then show ?thesis
      by (simp add: v0 zero_table_lookup stage_matches_mkey bump_all_tally team_tally_def)
  qed
  show "\<forall>m \<in> set ms. home_team_id m \<in> fst ` set tn \<and> away_team_id m \<in> fst ` set tn"
  proof (rule fold_matches_known [OF fold])
    show "\<forall>k. fst ` set (vtable tn sd0 k) = fst ` set tn"
      using v0 zero_table_keys [of tn] by (metis set_map)
  qed
  have ap_in: "(sn, ''apertura'') \<in> set (map fst sd1)" and cl_in: "(sn, ''clausura'') \<in> set (map fst sd1)"
    using keys1 keys0 by auto
  from rollup_total [OF ap_in cl_in tk1 dist] roll obtain annual2 where
    sd2: "sd2 = AList.update akey annual2 sd1"
    and a2k: "map fst annual2 = map fst tn"
    and a2l: "\<And>x a c. map_of (vtable tn sd1 (sn, ''apertura'')) x = Some a
                \<Longrightarrow> map_of (vtable tn sd1 (sn, ''clausura'')) x = Some c
                \<Longrightarrow> map_of annual2 x = Some (add_stats a c)"
    unfolding akey_def by auto
  have keys2: "set (map fst sd2) = insert akey (set (map fst sd1))"
    by (auto simp: sd2 update_keys)
  show "set (map fst sd2) =
           {(sn, ''apertura''), (sn, ''clausura''), (sn, ''intermedio''), (sn, ''anual'')}
           \<union> mkey ` set ms"
    unfolding keys2 keys1 keys0 akey_def by auto
  show "distinct (map fst sd2)"
    unfolding sd2 by (rule distinct_update [OF dist1])
  have v2a: "vtable tn sd2 akey = annual2"
    by (simp add: vtable_def sd2 update_conv')
  have v2o: "vtable tn sd2 k' = vtable tn sd1 k'" if "k' \<noteq> akey" for k'
    using that by (simp add: vtable_def sd2 update_conv')
  show "map fst (vtable tn sd2 k) = map fst tn"
    by (cases "k = akey") (simp_all add: v2a v2o a2k tk1)
  show "map_of (vtable tn sd2 k) tid = Some (expected_stats sn ms k tid)" if tid: "tid \<in> fst ` set tn"
  proof (cases "k = akey")
    case True
    have "map_of annual2 tid =
        Some (add_stats (team_tally sn ''apertura'' tid ms) (team_tally sn ''clausura'' tid ms))"
      using tid by (intro a2l) (simp_all add: look1)
    then show ?thesis
      using True v2a by (simp add: expected_stats_def akey_def)
  next
    case False
    obtain sn' st' where k: "k = (sn', st')" by (cases k)
    show ?thesis
      using False tid by (auto simp: v2o k look1 expected_stats_def akey_def)
  qed
qed

lemma compute_standings_data_total:
  assumes known: "\<forall>m \<in> set ms. home_team_id m \<in> fst ` set tn \<and> away_team_id m \<in> fst ` set tn"
    and dist: "distinct (map fst tn)"
  shows "\<exists>sd2. compute_standings_data tn sn ms = Inr sd2"
proof -
  define sd0 where "sd0 = map (\<lambda>stage_arg. ((sn, stage_arg), zero_table tn))
                  [''apertura'', ''clausura'', ''intermedio'']"
  have v0: "vtable tn sd0 k' = zero_table tn" for k'
    unfolding sd0_def by (rule vtable_sd0)
  have keys0: "map fst sd0 = [(sn, ''apertura''), (sn, ''clausura''), (sn, ''intermedio'')]"
    by (simp add: sd0_def)
  have "\<forall>k. fst ` set (vtable tn sd0 k) = fst ` set tn"
    using v0 zero_table_keys [of tn] by (metis set_map)
  from fold_matches_total [OF known this] obtain sd1 where fold: "fold_matches tn sd0 ms = Inr sd1"
    by blast
  note F = fold_matches_Inr [OF fold]
  have keys1: "set (map fst sd1) = set (map fst sd0) \<union> mkey ` set ms" using F by blast
  have tk1: "map fst (vtable tn sd1 k') = map fst tn" for k'
  proof -
    have "map fst (vtable tn sd1 k') = map fst (vtable tn sd0 k')" using F by blast
    then show ?thesis by (simp add: v0 zero_table_keys)
  qed
  have ap_in: "(sn, ''apertura'') \<in> set (map fst sd1)" and cl_in: "(sn, ''clausura'') \<in> set (map fst sd1)"
    using keys1 keys0 by auto
  from rollup_total [OF ap_in cl_in tk1 dist] fold show ?thesis
    unfolding compute_standings_data_def Let_def sd0_def [symmetric] by auto
qed

lemma insert_standings_Inr: "insert_standings tbl rs = Inr tbl' \<Longrightarrow> tbl' = tbl @ rs"
proof (induction rs arbitrary: tbl)
  case Nil
  then show ?case by simp
next
  case (Cons r rs)
  from Cons.prems have "insert_standings (tbl @ [r]) rs = Inr tbl'"
    by (simp split: if_splits)
  from Cons.IH [OF this] show ?case by simp
qed

lemma insert_standings_total:
  "distinct (map s_key rs) \<Longrightarrow> s_key ` set rs \<inter> s_key ` set tbl = {}
     \<Longrightarrow> insert_standings tbl rs = Inr (tbl @ rs)"
proof (induction rs arbitrary: tbl)
  case Nil
  show ?case by simp
next
  case (Cons r rs)
  from Cons.prems have notin: "s_key r \<notin> s_key ` set tbl" by auto
  from Cons.prems have "distinct (map s_key rs)" and "s_key ` set rs \<inter> s_key ` set (tbl @ [r]) = {}"
    by auto
  from Cons.IH [OF this] notin show ?case by simp
qed

lemma standings_row_key [simp]:
  "s_season_year (standings_row aux sn st p) = sn"
  "s_stage_code (standings_row aux sn st p) = st"
  "s_team_id (standings_row aux sn st p) = fst p"
  by (simp_all add: standings_row_def Let_def split_def)

lemma table_rows_set:
  "set (table_rows tn aux sn st table) = standings_row aux sn st ` set table"
  by (simp add: table_rows_def sort_rows_def)

lemma table_rows_keys:
  "r \<in> set (table_rows tn aux sn st table) \<Longrightarrow> s_season_year r = sn \<and> s_stage_code r = st"
  by (auto simp: table_rows_set)

lemma table_rows_distinct:
  assumes "distinct (map fst table)"
  shows "distinct (map s_key (table_rows tn aux sn st table))"
proof -
  have "mset (map s_key (table_rows tn aux sn st table))
          = mset (map s_key (map (standings_row aux sn st) table))"
    by (simp add: table_rows_def sort_rows_def multiset.map_comp)
  also have "map s_key (map (standings_row aux sn st) table) = map (\<lambda>tid. (sn, st, tid)) (map fst table)"
    by (simp add: s_key_def)
  finally have "mset (map s_key (table_rows tn aux sn st table))
          = mset (map (\<lambda>tid. (sn, st, tid)) (map fst table))" .
  moreover have "distinct (map (\<lambda>tid. (sn, st, tid)) (map fst table))"
    using assms by (simp add: distinct_map inj_on_def)
  ultimately show ?thesis
    by (metis mset_eq_imp_distinct_iff)
qed

lemma rows_for_append:
  "rows_for (db\<lparr> standings := xs @ ys \<rparr>) sn st
     = rows_for (db\<lparr> standings := xs \<rparr>) sn st @ [r \<leftarrow> ys. s_season_year r = sn \<and> s_stage_code r = st]"
  by (simp add: rows_for_def)

lemma filter_table_rows:
  "[r \<leftarrow> table_rows tn aux sn0 st0 table. s_season_year r = sn \<and> s_stage_code r = st]
     = (if (sn0, st0) = (sn, st) then table_rows tn aux sn0 st0 table else [])"
proof (cases "(sn0, st0) = (sn, st)")
  case True
  then have "\<forall>r \<in> set (table_rows tn aux sn0 st0 table). s_season_year r = sn \<and> s_stage_code r = st"
    using table_rows_keys by blast
  then show ?thesis using True by simp
next
  case False
  then have "\<forall>r \<in> set (table_rows tn aux sn0 st0 table). \<not> (s_season_year r = sn \<and> s_stage_code r = st)"
    using table_rows_keys by blast
  then have "[r \<leftarrow> table_rows tn aux sn0 st0 table. s_season_year r = sn \<and> s_stage_code r = st] = []"
    unfolding filter_empty_conv by blast
  then show ?thesis using False by (simp only: if_False)
qed

lemma store_tables_Inr:
  assumes "store_tables h tn db sd = Inr db'" and "distinct (map fst sd)"
  shows "db' = db\<lparr> standings := standings db' \<rparr>
    \<and> (\<forall>sn st. \<exists>aux. rows_for db' sn st =
         rows_for db sn st @ (case map_of sd (sn, st) of
                                None \<Rightarrow> []
                              | Some table \<Rightarrow> table_rows tn aux sn st table))"
  using assms
proof (induction sd arbitrary: db)
  case Nil
  then show ?case by simp
next
  case (Cons p rest)
  obtain sn0 st0 table0 where p: "p = ((sn0, st0), table0)" by (cases p) auto
  define new_rows where "new_rows = table_rows tn (h db sn0 st0) sn0 st0 table0"
  define db1 where "db1 = db\<lparr> standings := standings db @ new_rows \<rparr>"
  from Cons.prems(1) have rest: "store_tables h tn db1 rest = Inr db'"
    unfolding p new_rows_def db1_def table_rows_def
    by (auto simp: Let_def split: sum.splits dest: insert_standings_Inr)
  from Cons.prems(2) have dist: "distinct (map fst rest)" and fresh: "(sn0, st0) \<notin> fst ` set rest"
    by (auto simp: p)
  note IH = Cons.IH [OF rest dist]
  have frame: "db' = db\<lparr> standings := standings db' \<rparr>"
  proof -
    have "db' = db1\<lparr> standings := standings db' \<rparr>" using IH by blast
    then show ?thesis by (simp add: db1_def)
  qed
  have rows: "\<exists>aux. rows_for db' sn st =
         rows_for db sn st @ (case map_of (p # rest) (sn, st) of
                                None \<Rightarrow> []
                              | Some table \<Rightarrow> table_rows tn aux sn st table)" for sn st
  proof -
    from IH obtain aux where aux: "rows_for db' sn st =
         rows_for db1 sn st @ (case map_of rest (sn, st) of
                                None \<Rightarrow> []
                              | Some table \<Rightarrow> table_rows tn aux sn st table)"
      by blast
    have r1: "rows_for db1 sn st = rows_for db sn st
                @ (if (sn0, st0) = (sn, st) then new_rows else [])"
      unfolding db1_def rows_for_def new_rows_def
      by (simp add: filter_table_rows)
    show ?thesis
    proof (cases "(sn0, st0) = (sn, st)")
      case True
      then have "map_of rest (sn, st) = None"
        using fresh by (metis domIff dom_map_of_conv_image_fst)
      with aux r1 True have "rows_for db' sn st =
         rows_for db sn st @ (case map_of (p # rest) (sn, st) of
                                None \<Rightarrow> []
                              | Some table \<Rightarrow> table_rows tn (h db sn0 st0) sn st table)"
        by (auto simp: p new_rows_def)
      then show ?thesis by blast
    next
      case False
      with aux r1 have "rows_for db' sn st =
         rows_for db sn st @ (case map_of (p # rest) (sn, st) of
                                None \<Rightarrow> []
                              | Some table \<Rightarrow> table_rows tn aux sn st table)"
        by (auto simp: p)
      then show ?thesis by blast
    qed
  qed
  from frame rows show ?case by blast
qed

lemma store_tables_total:
  assumes "distinct (map fst sd)"
    and "\<forall>(k, table) \<in> set sd. distinct (map fst table)"
    and "\<forall>r \<in> set (standings db). (s_season_year r, s_stage_code r) \<notin> fst ` set sd"
  shows "\<exists>db'. store_tables h tn db sd = Inr db'"
  using assms
proof (induction sd arbitrary: db)
  case Nil
  show ?case by simp
next
  case (Cons p rest)
  obtain sn0 st0 table0 where p: "p = ((sn0, st0), table0)" by (cases p) auto
  define new_rows where "new_rows = table_rows tn (h db sn0 st0) sn0 st0 table0"
  define db1 where "db1 = db\<lparr> standings := standings db @ new_rows \<rparr>"
  have d0: "distinct (map s_key new_rows)"
    unfolding new_rows_def using Cons.prems(2) by (intro table_rows_distinct) (simp add: p)
  have "s_key ` set new_rows \<inter> s_key ` set (standings db) = {}"
  proof -
    have "s_key r \<noteq> s_key r'" if "r \<in> set new_rows" and "r' \<in> set (standings db)" for r r'
    proof -
      from that(1) have "s_season_year r = sn0 \<and> s_stage_code r = st0"
        unfolding new_rows_def by (rule table_rows_keys)
      moreover from that(2) Cons.prems(3) have "(s_season_year r', s_stage_code r') \<noteq> (sn0, st0)"
        by (auto simp: p)
      ultimately show ?thesis by (auto simp: s_key_def)
    qed
    then show ?thesis by blast
  qed
  from insert_standings_total [OF d0 this]
  have ins: "insert_standings (standings db) new_rows = Inr (standings db @ new_rows)" .
  from Cons.prems(1) have dist: "distinct (map fst rest)" and fresh: "(sn0, st0) \<notin> fst ` set rest"
    by (auto simp: p)
  have tabs: "\<forall>(k, table) \<in> set rest. distinct (map fst table)"
    using Cons.prems(2) by auto
  have "\<forall>r \<in> set (standings db1). (s_season_year r, s_stage_code r) \<notin> fst ` set rest"
  proof
    fix r assume "r \<in> set (standings db1)"
    then consider "r \<in> set (standings db)" | "r \<in> set new_rows"
      by (auto simp: db1_def)
    then show "(s_season_year r, s_stage_code r) \<notin> fst ` set rest"
    proof cases
      case 1
      with Cons.prems(3) show ?thesis by (auto simp: p)
    next
      case 2
      then have "s_season_year r = sn0 \<and> s_stage_code r = st0"
        unfolding new_rows_def by (rule table_rows_keys)
      with fresh show ?thesis by simp
    qed
  qed
  from Cons.IH [OF dist tabs this] obtain db' where "store_tables h tn db1 rest = Inr db'"
    by blast
  then show ?case
    using ins unfolding p db1_def new_rows_def table_rows_def by (simp add: Let_def)
qed

section \<open>The persisted tables\<close>

lemma alist_eq:
  assumes "distinct (map fst al)" and "\<And>k. k \<in> fst ` set al \<Longrightarrow> map_of al k = Some (f k)"
  shows "al = map (\<lambda>k. (k, f k)) (map fst al)"
  using assms
proof (induction al)
  case Nil
  show ?case by simp
next
  case (Cons p al)
  obtain k v where p: "p = (k, v)" by (cases p)
  from Cons.prems(1) have dist: "distinct (map fst al)" and notin: "k \<notin> fst ` set al"
    by (auto simp: p)
  have "map_of al k' = Some (f k')" if "k' \<in> fst ` set al" for k'
  proof -
    from that notin have "k' \<noteq> k" by auto
    with Cons.prems(2) [of k'] that show ?thesis by (simp add: p)
  qed
  from Cons.IH [OF dist this] have tl: "al = map (\<lambda>k. (k, f k)) (map fst al)" by simp
  from Cons.prems(2) [of k] have "v = f k" by (simp add: p)
  with tl show ?case by (simp add: p)
qed

lemma store_tables_append:
  assumes "store_tables h tn db sd = Inr db'"
  shows "\<exists>new. standings db' = standings db @ new
           \<and> (\<forall>r \<in> set new. (s_season_year r, s_stage_code r) \<in> fst ` set sd)"
  using assms
proof (induction sd arbitrary: db)
  case Nil
  then show ?case by simp
next
  case (Cons p rest)
  obtain sn0 st0 table0 where p: "p = ((sn0, st0), table0)" by (cases p) auto
  define new_rows where "new_rows = table_rows tn (h db sn0 st0) sn0 st0 table0"
  define db1 where "db1 = db\<lparr> standings := standings db @ new_rows \<rparr>"
  from Cons.prems(1) have rest: "store_tables h tn db1 rest = Inr db'"
    unfolding p new_rows_def db1_def table_rows_def
    by (auto simp: Let_def split: sum.splits dest: insert_standings_Inr)
  from Cons.IH [OF rest] obtain new where new: "standings db' = standings db1 @ new"
    and keys: "\<forall>r \<in> set new. (s_season_year r, s_stage_code r) \<in> fst ` set rest"
    by blast
  have "standings db' = standings db @ (new_rows @ new)"
    by (simp add: new db1_def)
  moreover have "\<forall>r \<in> set (new_rows @ new). (s_season_year r, s_stage_code r) \<in> fst ` set (p # rest)"
    using keys table_rows_keys [of _ tn "h db sn0 st0" sn0 st0 table0]
    by (auto simp: p new_rows_def)
  ultimately show ?case by blast
qed

lemma build_Inr:
  assumes ok: "build_and_store_standings h conn sn ms = Inr conn'"
  shows "disk conn' = view conn'"
    and "teams (disk conn') = teams (view conn)"
    and "(st \<in> set all_stages \<or> (\<exists>m \<in> set ms. season_year m = sn \<and> stage_code m = st))
          \<Longrightarrow> \<exists>aux. rows_for (disk conn') sn st =
                 table_rows (team_names_of (view conn)) aux sn st
                   (expected_table (team_names_of (view conn)) sn st ms)"
    and "\<forall>m \<in> set ms. home_team_id m \<in> t_id ` set (teams (view conn))
                      \<and> away_team_id m \<in> t_id ` set (teams (view conn))"
    and "\<forall>r \<in> set (standings (disk conn')). s_season_year r = sn \<longrightarrow>
           (s_stage_code r \<in> set all_stages
            \<or> (\<exists>m \<in> set ms. season_year m = sn \<and> stage_code m = s_stage_code r))"
proof -
  define tn where "tn = team_names_of (view conn)"
  define db1 where "db1 = (view conn)\<lparr> standings :=
                          [s \<leftarrow> standings (view conn). s_season_year s \<noteq> sn] \<rparr>"
  from ok obtain sd2 db2 where comp: "compute_standings_data tn sn ms = Inr sd2"
    and store: "store_tables h tn db1 sd2 = Inr db2"
    and conn': "conn' = commit (conn\<lparr> view := db2 \<rparr>)"
    unfolding build_and_store_standings_def Let_def tn_def [symmetric] db1_def [symmetric]
    by (auto split: sum.splits)
  have dist: "distinct (map fst tn)"
    unfolding tn_def by (rule team_names_distinct)
  note C = compute_standings_data_Inr [OF comp dist]
  note S = store_tables_Inr [OF store C(2)]
  show "disk conn' = view conn'"
    by (simp add: conn' commit_def)
  have disk: "disk conn' = db2"
    by (simp add: conn' commit_def)
  have "db2 = db1\<lparr> standings := standings db2 \<rparr>" using S by blast
  then have "teams db2 = teams db1"
    by (metis Store.select_convs(2) Store.surjective Store.update_convs(8))
  then show "teams (disk conn') = teams (view conn)"
    by (simp add: disk db1_def)
  show "\<forall>m \<in> set ms. home_team_id m \<in> t_id ` set (teams (view conn))
                      \<and> away_team_id m \<in> t_id ` set (teams (view conn))"
    using C(5) by (simp add: tn_def team_names_keys)
  have keys_sn: "(sn, st') \<in> set (map fst sd2) \<longleftrightarrow>
       (st' \<in> set all_stages \<or> (\<exists>m \<in> set ms. season_year m = sn \<and> stage_code m = st'))" for st'
    unfolding C(1) all_stages_def by (auto simp: mkey_def image_iff)
  show "\<exists>aux. rows_for (disk conn') sn st =
                 table_rows (team_names_of (view conn)) aux sn st
                   (expected_table (team_names_of (view conn)) sn st ms)"
    if "st \<in> set all_stages \<or> (\<exists>m \<in> set ms. season_year m = sn \<and> stage_code m = st)"
  proof -
    from that have in_keys: "(sn, st) \<in> set (map fst sd2)"
      by (simp only: keys_sn)
    define table where "table = vtable tn sd2 (sn, st)"
    have look: "map_of sd2 (sn, st) = Some table"
      unfolding table_def by (rule vtable_lookup [OF in_keys])
    have tkeys: "map fst table = map fst tn"
      unfolding table_def by (rule C(3))
    have "table = map (\<lambda>tid. (tid, expected_stats sn ms (sn, st) tid)) (map fst table)"
    proof (rule alist_eq)
      show "distinct (map fst table)" by (simp add: tkeys dist)
      fix k assume "k \<in> fst ` set table"
      then have "k \<in> fst ` set tn" using tkeys by (metis set_map)
      then show "map_of table k = Some (expected_stats sn ms (sn, st) k)"
        unfolding table_def by (rule C(4))
    qed
    then have table: "table = expected_table tn sn st ms"
      by (simp add: expected_table_def tkeys)
    from S obtain aux where "rows_for db2 sn st =
         rows_for db1 sn st @ (case map_of sd2 (sn, st) of
                                None \<Rightarrow> []
                              | Some table \<Rightarrow> table_rows tn aux sn st table)"
      by blast
    moreover have "rows_for db1 sn st = []"
      by (simp add: rows_for_def db1_def filter_empty_conv)
    ultimately have "rows_for db2 sn st = table_rows tn aux sn st (expected_table tn sn st ms)"
      by (simp add: look table)
    then show ?thesis
      unfolding disk tn_def by blast
  qed
  show "\<forall>r \<in> set (standings (disk conn')). s_season_year r = sn \<longrightarrow>
           (s_stage_code r \<in> set all_stages
            \<or> (\<exists>m \<in> set ms. season_year m = sn \<and> stage_code m = s_stage_code r))"
  proof (intro ballI impI)
    fix r assume r: "r \<in> set (standings (disk conn'))" and sn: "s_season_year r = sn"
    from store_tables_append [OF store] obtain new where
      new: "standings db2 = standings db1 @ new"
      and keys: "\<forall>r \<in> set new. (s_season_year r, s_stage_code r) \<in> fst ` set sd2"
      by blast
    from r sn have "r \<in> set new"
      by (auto simp: disk new db1_def)
    with keys sn have "(sn, s_stage_code r) \<in> set (map fst sd2)"
      by force
    then show "s_stage_code r \<in> set all_stages
            \<or> (\<exists>m \<in> set ms. season_year m = sn \<and> stage_code m = s_stage_code r)"
      by (simp only: keys_sn)
  qed
qed

lemma build_total:
  assumes "seeded_matches conn sn ms"
  shows "\<exists>conn'. build_and_store_standings h conn sn ms = Inr conn'"
proof -
  define tn where "tn = team_names_of (view conn)"
  define db1 where "db1 = (view conn)\<lparr> standings :=
                          [s \<leftarrow> standings (view conn). s_season_year s \<noteq> sn] \<rparr>"
  have dist: "distinct (map fst tn)"
    unfolding tn_def by (rule team_names_distinct)
  have known: "\<forall>m \<in> set ms. home_team_id m \<in> fst ` set tn \<and> away_team_id m \<in> fst ` set tn"
    using assms by (simp add: seeded_matches_def tn_def team_names_keys)
  from compute_standings_data_total [OF known dist] obtain sd2 where
    comp: "compute_standings_data tn sn ms = Inr sd2" by blast
  note C = compute_standings_data_Inr [OF comp dist]
  have tabs: "\<forall>(k, table) \<in> set sd2. distinct (map fst table)"
  proof (clarify)
    fix a b table assume mem: "((a, b), table) \<in> set sd2"
    with C(2) have "map_of sd2 (a, b) = Some table" by simp
    then have "vtable tn sd2 (a, b) = table" by (simp add: vtable_def)
    with C(3) [of "(a, b)"] dist show "distinct (map fst table)" by simp
  qed
  have fresh: "\<forall>r \<in> set (standings db1). (s_season_year r, s_stage_code r) \<notin> fst ` set sd2"
  proof
    fix r assume "r \<in> set (standings db1)"
    then have ne: "s_season_year r \<noteq> sn" by (simp add: db1_def)
    have "fst k = sn" if "k \<in> set (map fst sd2)" for k
      using that assms unfolding C(1) seeded_matches_def by (auto simp: mkey_def)
    with ne show "(s_season_year r, s_stage_code r) \<notin> fst ` set sd2"
      by (metis fst_conv set_map)
  qed
  from store_tables_total [OF C(2) tabs fresh] obtain db2 where
    "store_tables h tn db1 sd2 = Inr db2" by blast
  with comp show ?thesis
    unfolding build_and_store_standings_def Let_def tn_def [symmetric] db1_def [symmetric]
    by simp
qed

lemma build_frame:
  assumes ok: "build_and_store_standings h conn sn ms = Inr conn'"
    and same: "\<forall>m \<in> set ms. season_year m = sn"
  shows "[r \<leftarrow> standings (disk conn'). s_season_year r \<noteq> sn]
           = [r \<leftarrow> standings (view conn). s_season_year r \<noteq> sn]"
proof -
  define tn where "tn = team_names_of (view conn)"
  define db1 where "db1 = (view conn)\<lparr> standings :=
                          [s \<leftarrow> standings (view conn). s_season_year s \<noteq> sn] \<rparr>"
  from ok obtain sd2 db2 where comp: "compute_standings_data tn sn ms = Inr sd2"
    and store: "store_tables h tn db1 sd2 = Inr db2"
    and conn': "conn' = commit (conn\<lparr> view := db2 \<rparr>)"
    unfolding build_and_store_standings_def Let_def tn_def [symmetric] db1_def [symmetric]
    by (auto split: sum.splits)
  have dist: "distinct (map fst tn)"
    unfolding tn_def by (rule team_names_distinct)
  note C = compute_standings_data_Inr [OF comp dist]
  from store_tables_append [OF store] obtain new where
    new: "standings db2 = standings db1 @ new"
    and keys: "\<forall>r \<in> set new. (s_season_year r, s_stage_code r) \<in> fst ` set sd2"
    by blast
  have "s_season_year r = sn" if "r \<in> set new" for r
  proof -
    from that keys have "(s_season_year r, s_stage_code r) \<in> set (map fst sd2)" by simp
    then show ?thesis
      using same unfolding C(1) by (auto simp: mkey_def)
  qed
  then have "[r \<leftarrow> new. s_season_year r \<noteq> sn] = []"
    by (simp add: filter_empty_conv)
  then show ?thesis
    by (simp add: conn' commit_def new db1_def)
qed

section \<open>Rows of the persisted tables\<close>

lemma filter_eq_distinct:
  "distinct xs \<Longrightarrow> x \<in> set xs \<Longrightarrow> [y \<leftarrow> xs. y = x] = [x]"
  by (induction xs) (auto simp: filter_empty_conv)

lemma row_of_rows_for: "row_of db sn st tid = [x \<leftarrow> rows_for db sn st. s_team_id x = tid]"
  by (simp add: row_of_def rows_for_def conj_ac cong: conj_cong)

lemma filter_table_rows_team:
  assumes "distinct (map fst tn)" and "tid \<in> fst ` set tn"
  shows "[x \<leftarrow> table_rows tn aux sn st (expected_table tn sn st ms). s_team_id x = tid]
           = [standings_row aux sn st (tid, expected_stats sn ms (sn, st) tid)]"
proof -
  have "[x \<leftarrow> map (standings_row aux sn st) (expected_table tn sn st ms). s_team_id x = tid]
          = map (\<lambda>k. standings_row aux sn st (k, expected_stats sn ms (sn, st) k))
              [k \<leftarrow> map fst tn. k = tid]"
    by (simp add: expected_table_def filter_map comp_def)
  also have "[k \<leftarrow> map fst tn. k = tid] = [tid]"
    using assms by (intro filter_eq_distinct) simp_all
  finally show ?thesis
    by (simp add: table_rows_def sort_rows_def filter_sort)
qed

lemma build_row:
  assumes ok: "build_and_store_standings h conn sn ms = Inr conn'"
    and st: "st \<in> set all_stages \<or> (\<exists>m \<in> set ms. season_year m = sn \<and> stage_code m = st)"
    and tid: "tid \<in> t_id ` set (teams (view conn))"
  shows "\<exists>aux. row_of (disk conn') sn st tid
                 = [standings_row aux sn st (tid, expected_stats sn ms (sn, st) tid)]"
proof -
  from build_Inr(3) [OF ok st] obtain aux where
    "rows_for (disk conn') sn st =
       table_rows (team_names_of (view conn)) aux sn st
         (expected_table (team_names_of (view conn)) sn st ms)"
    by blast
  then have "row_of (disk conn') sn st tid
       = [standings_row aux sn st (tid, expected_stats sn ms (sn, st) tid)]"
    unfolding row_of_rows_for
    using filter_table_rows_team [OF team_names_distinct, of tid "view conn"] tid
    by (simp add: team_names_keys)
  then show ?thesis by blast
qed

lemma build_row_shape:
  assumes ok: "build_and_store_standings h conn sn ms = Inr conn'"
    and r: "r \<in> set (standings (disk conn'))" and sn: "s_season_year r = sn"
  shows "\<exists>aux. r = standings_row aux sn (s_stage_code r)
                     (s_team_id r, expected_stats sn ms (sn, s_stage_code r) (s_team_id r))"
proof -
  define st where "st = s_stage_code r"
  from build_Inr(5) [OF ok] r sn
  have "st \<in> set all_stages \<or> (\<exists>m \<in> set ms. season_year m = sn \<and> stage_code m = st)"
    unfolding st_def by blast
  from build_Inr(3) [OF ok this] obtain aux where rows:
    "rows_for (disk conn') sn st =
       table_rows (team_names_of (view conn)) aux sn st
         (expected_table (team_names_of (view conn)) sn st ms)"
    by blast
  from r sn have "r \<in> set (rows_for (disk conn') sn st)"
    by (simp add: rows_for_def st_def)
  then obtain p where p: "p \<in> set (expected_table (team_names_of (view conn)) sn st ms)"
    and rp: "r = standings_row aux sn st p"
    unfolding rows table_rows_set by blast
  from p obtain k where "p = (k, expected_stats sn ms (sn, st) k)"
    by (auto simp: expected_table_def)
  with rp have "r = standings_row aux sn st (s_team_id r, expected_stats sn ms (sn, st) (s_team_id r))"
    by simp
  then show ?thesis unfolding st_def by blast
qed

lemma side_results_empty:
  "(\<forall>m \<in> set ms. home_team_id m \<noteq> tid \<and> away_team_id m \<noteq> tid) \<Longrightarrow> side_results tid ms = []"
  by (induction ms) (simp_all add: side_results_def)

lemma team_tally_zero:
  assumes "\<forall>m \<in> set ms. season_year m = sn \<and> stage_code m = st
              \<longrightarrow> home_team_id m \<noteq> tid \<and> away_team_id m \<noteq> tid"
  shows "team_tally sn st tid ms = zero_stats"
proof -
  have "side_results tid (stage_matches sn st ms) = []"
    using assms by (intro side_results_empty) (simp add: stage_matches_def)
  then show ?thesis by (simp add: team_tally_def)
qed

lemma expected_stats_zero:
  assumes "\<not> plays_in_stage sn st tid ms"
  shows "expected_stats sn ms (sn, st) tid = zero_stats"
proof (cases "st = ''anual''")
  case True
  have "team_tally sn ''apertura'' tid ms = zero_stats" "team_tally sn ''clausura'' tid ms = zero_stats"
    using assms True
    by (auto intro!: team_tally_zero simp: plays_in_stage_def stages_for_query_def)
  then show ?thesis using True by (simp add: expected_stats_def)
next
  case False
  have "team_tally sn st tid ms = zero_stats"
    using assms False
    by (auto intro!: team_tally_zero simp: plays_in_stage_def stages_for_query_def)
  then show ?thesis using False by (simp add: expected_stats_def)
qed

lemma tally_inv:
  "0 \<le> w (tally rs) \<and> 0 \<le> d (tally rs) \<and> 0 \<le> l (tally rs)
     \<and> mp (tally rs) = w (tally rs) + d (tally rs) + l (tally rs)"
proof (induction rs)
  case Nil
  show ?case by (simp add: tally_def)
next
  case (Cons r rs)
  then show ?case by (auto simp: tally_def)
qed

lemma expected_stats_inv:
  "0 \<le> w (expected_stats sn ms k tid) \<and> 0 \<le> d (expected_stats sn ms k tid)
     \<and> 0 \<le> l (expected_stats sn ms k tid)
     \<and> mp (expected_stats sn ms k tid)
         = w (expected_stats sn ms k tid) + d (expected_stats sn ms k tid)
           + l (expected_stats sn ms k tid)"
  using tally_inv [of "side_results tid (stage_matches sn ''apertura'' ms)"]
    tally_inv [of "side_results tid (stage_matches sn ''clausura'' ms)"]
    tally_inv [of "side_results tid (stage_matches (fst k) (snd k) ms)"]
  by (simp add: expected_stats_def team_tally_def add_stats_def)

lemma standings_row_fields:
  "s_mp (standings_row aux sn st (tid, e)) = mp e"
  "s_w (standings_row aux sn st (tid, e)) = w e"
  "s_d (standings_row aux sn st (tid, e)) = d e"
  "s_l (standings_row aux sn st (tid, e)) = l e"
  "s_gf (standings_row aux sn st (tid, e)) = gf e"
  "s_ga (standings_row aux sn st (tid, e)) = ga e"
  "s_gd (standings_row aux sn st (tid, e)) = gf e - ga e"
  "s_pts (standings_row aux sn st (tid, e)) = w e * 3 + d e"
  "s_ppg (standings_row aux sn st (tid, e))
     = py_round2 (to_double (w e * 3 + d e) (if mp e \<noteq> 0 then mp e else 1))"
  by (simp_all add: standings_row_def Let_def)

lemma py_round2_zero: "py_round2 (to_double 0 n) = 0"
  by (simp add: py_round2_def to_double_def round_half_even_def)

lemma py_round2_ten_fifths: "py_round2 (to_double 10 5) = 2"
  by code_simp

subsection \<open>Accuracy of the quotient and of the rounding\<close>

lemma pow2_powi: "pow2 e = 2 powi e"
  by (simp add: pow2_def power_int_def inverse_eq_divide power_one_over)

lemma pow2_pos: "0 < pow2 e"
  by (simp add: pow2_powi)

lemma pow2_mono: "e \<le> e' \<Longrightarrow> pow2 e \<le> pow2 e'"
  by (simp add: pow2_powi power_int_increasing)

lemma round_half_even_error: "\<bar>of_int (round_half_even x) - x\<bar> \<le> 1 / 2"
proof -
  have "of_int \<lfloor>x\<rfloor> \<le> x" "x < of_int \<lfloor>x\<rfloor> + 1" by linarith+
  then show ?thesis
    by (auto simp: round_half_even_def Let_def)
qed

lemma round_half_even_nonneg: "0 \<le> x \<Longrightarrow> 0 \<le> round_half_even x"
  by (auto simp: round_half_even_def Let_def)

lemma ilog2_upper:
  assumes p: "0 < p" and m: "0 < m" and lt: "p < 4 * m"
  shows "ilog2 p m \<le> 1"
proof -
  define k where "k = bitlen p - bitlen m"
  have bm: "2 ^ nat (bitlen m - 1) \<le> m" using bitlen_bounds [OF m] by simp
  have bm1: "1 \<le> bitlen m" using m bitlen_eq_zero_iff [of m] bitlen_nonneg [of m] by linarith
  have "p < 4 * m" by (rule lt)
  also have "m < 2 ^ nat (bitlen m)" using bitlen_bounds [OF m] by simp
  finally have "p < 2 ^ (nat (bitlen m) + 2)" by simp
  also have "nat (bitlen m) + 2 = nat (bitlen m + 2)" using bm1 by simp
  finally have "bitlen p \<le> bitlen m + 2"
    using bm1 by (simp add: bitlen_le_iff_power)
  then have k2: "k \<le> 2" by (simp add: k_def)
  show ?thesis
  proof (cases "pow2 k * of_int m \<le> of_int p")
    case True
    have "k \<le> 1"
    proof (rule ccontr)
      assume "\<not> k \<le> 1"
      then have "2 \<le> k" by simp
      then have "pow2 2 \<le> pow2 k" by (rule pow2_mono)
      then have "4 \<le> pow2 k" by (simp add: pow2_def)
      then have "4 * (of_int m :: rat) \<le> pow2 k * of_int m"
        using m by (simp add: mult_right_mono)
      also note True
      finally have "4 * m \<le> p" 
        by (metis of_int_le_iff of_int_mult of_int_numeral)
      with lt show False by simp
    qed
    with True show ?thesis by (simp add: ilog2_def k_def Let_def)
  next
    case False
    with k2 show ?thesis by (simp add: ilog2_def k_def Let_def)
  qed
qed

lemma to_double_error:
  assumes p: "0 \<le> p" and m: "0 < m" and lt: "p < 4 * m"
  shows "\<bar>to_double p m - of_int p / of_int m\<bar> \<le> 1 / 2 ^ 52"
proof (cases "p = 0")
  case True
  then show ?thesis by (simp add: to_double_def)
next
  case False
  with p have pos: "0 < p" by simp
  define e where "e = ilog2 p m - 52"
  define x :: rat where "x = of_int p / of_int m"
  have e: "e \<le> - 51" using ilog2_upper [OF pos m lt] by (simp add: e_def)
  have td: "to_double p m = of_int (round_half_even (x / pow2 e)) * pow2 e"
    using pos m False by (simp add: to_double_def Let_def e_def x_def)
  have "to_double p m - x = (of_int (round_half_even (x / pow2 e)) - x / pow2 e) * pow2 e"
    using pow2_pos [of e] by (simp add: td left_diff_distrib)
  then have "\<bar>to_double p m - x\<bar>
               = \<bar>of_int (round_half_even (x / pow2 e)) - x / pow2 e\<bar> * pow2 e"
    using pow2_pos [of e] by (simp only: abs_mult abs_of_pos)
  also have "\<dots> \<le> 1 / 2 * pow2 e"
    using round_half_even_error [of "x / pow2 e"] pow2_pos [of e]
    by (simp add: mult_right_mono)
  also have "pow2 e \<le> pow2 (- 51)" using e by (rule pow2_mono)
  then have "1 / 2 * pow2 e \<le> 1 / 2 * pow2 (- 51)" by simp
  also have "1 / 2 * pow2 (- 51) = 1 / 2 ^ 52" by (simp add: pow2_def)
  finally show ?thesis by (simp add: x_def)
qed

lemma to_double_nonneg:
  assumes "0 \<le> p" and "0 < m"
  shows "0 \<le> to_double p m"
proof (cases "p = 0")
  case True
  then show ?thesis by (simp add: to_double_def)
next
  case False
  define e where "e = ilog2 \<bar>p\<bar> \<bar>m\<bar> - 52"
  have "0 \<le> of_int p / of_int m / pow2 e"
    using assms pow2_pos [of e] by simp
  then have "0 \<le> round_half_even (of_int p / of_int m / pow2 e)"
    by (rule round_half_even_nonneg)
  then have "0 \<le> (of_int (round_half_even (of_int p / of_int m / pow2 e)) :: rat) * pow2 e"
    using pow2_pos [of e] by (intro mult_nonneg_nonneg) simp_all
  then show ?thesis
    using False by (simp add: to_double_def Let_def e_def)
qed

text \<open>\<open>round(p / m, 2)\<close> for a quotient between 0 and 3: a double within \<open>2 ^ - 52\<close> of a
  multiple of \<open>1 / 100\<close> that is a nearest one to the double quotient.\<close>

lemma py_round2_quotient:
  assumes p: "0 \<le> p" and m: "0 < m" and le: "p \<le> 3 * m"
  shows "\<exists>k. \<bar>py_round2 (to_double p m) - of_int k / 100\<bar> \<le> 1 / 2 ^ 52
            \<and> \<bar>rat_of_int k / 100 - of_int p / of_int m\<bar> \<le> 1 / 200 + 1 / 2 ^ 52"
proof -
  define q where "q = to_double p m"
  define k where "k = round_half_even (100 * q)"
  from le m have lt: "p < 4 * m" by simp
  have q0: "0 \<le> q" unfolding q_def by (rule to_double_nonneg [OF p m])
  have qe: "\<bar>q - of_int p / of_int m\<bar> \<le> 1 / 2 ^ 52"
    unfolding q_def by (rule to_double_error [OF p m lt])
  have "(of_int p :: rat) \<le> 3 * of_int m"
    using le by (metis of_int_le_iff of_int_mult of_int_numeral)
  then have x3: "(of_int p :: rat) / of_int m \<le> 3"
    using m by (simp add: pos_divide_le_eq)
  have q3: "q \<le> 3 + 1 / 2 ^ 52" using qe x3 by linarith
  have k0: "0 \<le> k" unfolding k_def using q0 by (intro round_half_even_nonneg) simp
  have ke: "\<bar>of_int k - 100 * q\<bar> \<le> 1 / 2"
    unfolding k_def by (rule round_half_even_error)
  then have ke': "\<bar>of_int k / 100 - q\<bar> \<le> 1 / 200" by linarith
  have "of_int k \<le> 100 * q + 1 / 2" using ke by linarith
  also have "\<dots> < 400" using q3 by simp
  finally have "k < 4 * 100" by simp
  from to_double_error [OF k0 _ this]
  have "\<bar>to_double k 100 - of_int k / 100\<bar> \<le> 1 / 2 ^ 52" by simp
  moreover have "py_round2 (to_double p m) = to_double k 100"
    by (simp add: py_round2_def k_def q_def)
  moreover have "\<bar>rat_of_int k / 100 - of_int p / of_int m\<bar> \<le> 1 / 200 + 1 / 2 ^ 52"
    using ke' qe by linarith
  ultimately show ?thesis by auto
qed

section \<open>Claims about the persisted standings\<close>

lemma example_summary:
  "summary (build_and_store_standings example_helpers example_conn 2024 example_matches) =
     [(''apertura'', 1, 5, 3, 1, 1, 9, 4, 5, 10, 2),
      (''apertura'', 2, 3, 1, 1, 1, 3, 5, - 2, 4, 748723438050345 / 562949953421312),
      (''apertura'', 3, 2, 0, 0, 2, 1, 4, - 3, 0, 0),
      (''clausura'', 1, 1, 1, 0, 0, 3, 0, 3, 3, 3),
      (''clausura'', 3, 0, 0, 0, 0, 0, 0, 0, 0, 0),
      (''clausura'', 2, 1, 0, 0, 1, 0, 3, - 3, 0, 0),
      (''intermedio'', 2, 1, 1, 0, 0, 1, 0, 1, 3, 3),
      (''intermedio'', 1, 0, 0, 0, 0, 0, 0, 0, 0, 0),
      (''intermedio'', 3, 1, 0, 0, 1, 0, 1, - 1, 0, 0),
      (''anual'', 1, 6, 4, 1, 1, 12, 4, 8, 13, 1221601398924247 / 562949953421312),
      (''anual'', 2, 4, 1, 1, 2, 3, 8, - 5, 4, 1),
      (''anual'', 3, 2, 0, 0, 2, 1, 4, - 3, 0, 0)]"
  by code_simp

lemma example_seeded: "seeded_matches example_conn 2024 example_matches"
  by code_simp

lemma example_seeded_apertura: "seeded_matches example_conn 2024 apertura_matches"
  by code_simp

text \<open>
  Claim C5. For a seeded season (every match of the season, between teams of the store),
  \<^verbatim>\<open>_build_and_store_standings\<close> returns, and for every stage among apertura, clausura,
  intermedio and anual every team of the store has exactly one persisted row; a team
  without a match in the stage (for anual: in apertura and clausura) has the row with
  \<open>mp\<close>, \<open>w\<close>, \<open>d\<close>, \<open>l\<close>, \<open>gf\<close>, \<open>ga\<close>, \<open>gd\<close> and \<open>pts\<close> all zero.
\<close>

theorem every_team_once_in_every_stage:
  assumes "seeded_matches conn sn ms"
    and "st \<in> set all_stages"
    and "tid \<in> t_id ` set (teams (view conn))"
  shows "\<exists>conn' r. build_and_store_standings h conn sn ms = Inr conn'
           \<and> teams (disk conn') = teams (view conn)
           \<and> row_of (disk conn') sn st tid = [r]
           \<and> (\<not> plays_in_stage sn st tid ms \<longrightarrow>
                s_mp r = 0 \<and> s_w r = 0 \<and> s_d r = 0 \<and> s_l r = 0 \<and> s_gf r = 0 \<and> s_ga r = 0
                \<and> s_gd r = 0 \<and> s_pts r = 0)"
proof -
  from build_total [OF assms(1)] obtain conn' where
    ok: "build_and_store_standings h conn sn ms = Inr conn'" by blast
  from build_row [OF ok _ assms(3)] assms(2) obtain aux where
    row: "row_of (disk conn') sn st tid
            = [standings_row aux sn st (tid, expected_stats sn ms (sn, st) tid)]"
    by blast
  define r where "r = standings_row aux sn st (tid, expected_stats sn ms (sn, st) tid)"
  have "s_mp r = 0 \<and> s_w r = 0 \<and> s_d r = 0 \<and> s_l r = 0 \<and> s_gf r = 0 \<and> s_ga r = 0
                \<and> s_gd r = 0 \<and> s_pts r = 0"
    if "\<not> plays_in_stage sn st tid ms"
    using expected_stats_zero [OF that]
    by (simp add: r_def standings_row_fields zero_stats_def)
  with ok row build_Inr(2) [OF ok] show ?thesis
    unfolding r_def [symmetric] by blast
qed

text \<open>In the example Danubio (team 3) plays no match of the clausura and has one row of
  zeros there; the twelve persisted rows are one per stage and team.\<close>

theorem every_team_once_in_every_stage_witness:
  "seeded_matches example_conn 2024 example_matches
   \<and> ''clausura'' \<in> set all_stages
   \<and> 3 \<in> t_id ` set (teams (view example_conn))
   \<and> \<not> plays_in_stage 2024 ''clausura'' 3 example_matches
   \<and> (\<exists>conn' r.
        build_and_store_standings example_helpers example_conn 2024 example_matches = Inr conn'
        \<and> row_of (disk conn') 2024 ''clausura'' 3 = [r]
        \<and> s_mp r = 0 \<and> s_w r = 0 \<and> s_d r = 0 \<and> s_l r = 0 \<and> s_gf r = 0 \<and> s_ga r = 0
        \<and> s_gd r = 0 \<and> s_pts r = 0)
   \<and> map (\<lambda>x. (fst x, fst (snd x)))
        (summary (build_and_store_standings example_helpers example_conn 2024 example_matches))
      = [(''apertura'', 1), (''apertura'', 2), (''apertura'', 3),
         (''clausura'', 1), (''clausura'', 3), (''clausura'', 2),
         (''intermedio'', 2), (''intermedio'', 1), (''intermedio'', 3),
         (''anual'', 1), (''anual'', 2), (''anual'', 3)]"
proof -
  have a: "seeded_matches example_conn 2024 example_matches" by (rule example_seeded)
  have b: "''clausura'' \<in> set all_stages" by (simp add: all_stages_def)
  have c: "3 \<in> t_id ` set (teams (view example_conn))" by code_simp
  have e: "\<not> plays_in_stage 2024 ''clausura'' 3 example_matches" by code_simp
  from every_team_once_in_every_stage [OF a b c, of example_helpers] e
  have "\<exists>conn' r.
        build_and_store_standings example_helpers example_conn 2024 example_matches = Inr conn'
        \<and> row_of (disk conn') 2024 ''clausura'' 3 = [r]
        \<and> s_mp r = 0 \<and> s_w r = 0 \<and> s_d r = 0 \<and> s_l r = 0 \<and> s_gf r = 0 \<and> s_ga r = 0
        \<and> s_gd r = 0 \<and> s_pts r = 0"
    by blast
  with a b c e show ?thesis
    by (simp add: example_summary)
qed

text \<open>
  Claim C4. Every row that the aggregator builds for a seeded season carries the counts
  of the team's matches of the stage (\<open>expected_stats\<close>: the tally of results and goals,
  for anual the sum of the apertura and clausura tallies), and its derived fields are
  \<open>gd = gf - ga\<close>, \<open>pts = 3 * w + d\<close> and \<open>ppg = round(pts / max(mp, 1), 2)\<close>. The
  rounding is to two decimals: \<open>ppg\<close> is a double within \<open>2 ^ - 52\<close> of a multiple of
  \<open>1 / 100\<close>, and this multiple is within \<open>1 / 200 + 2 ^ - 52\<close> of the exact quotient
  \<open>pts / max(mp, 1)\<close>. A row with 3 wins, 1 draw, 1 loss, 9 goals for and 4 against shows
  \<open>mp = 5\<close>, \<open>pts = 10\<close>, \<open>gd = 5\<close>, \<open>ppg = 2.0\<close>; a row with no match played shows
  \<open>ppg = 0\<close>.
\<close>

theorem derived_fields_of_rows:
  assumes "seeded_matches conn sn ms"
  shows "\<exists>conn'. build_and_store_standings h conn sn ms = Inr conn'
     \<and> (\<forall>r \<in> set (standings (disk conn')). s_season_year r = sn \<longrightarrow>
           s_mp r = mp (expected_stats sn ms (sn, s_stage_code r) (s_team_id r))
         \<and> s_w r = w (expected_stats sn ms (sn, s_stage_code r) (s_team_id r))
         \<and> s_d r = d (expected_stats sn ms (sn, s_stage_code r) (s_team_id r))
         \<and> s_l r = l (expected_stats sn ms (sn, s_stage_code r) (s_team_id r))
         \<and> s_gf r = gf (expected_stats sn ms (sn, s_stage_code r) (s_team_id r))
         \<and> s_ga r = ga (expected_stats sn ms (sn, s_stage_code r) (s_team_id r))
         \<and> s_gd r = s_gf r - s_ga r
         \<and> s_pts r = 3 * s_w r + s_d r
         \<and> s_ppg r = py_round2 (to_double (s_pts r) (max (s_mp r) 1))
         \<and> (\<exists>k. \<bar>s_ppg r - of_int k / 100\<bar> \<le> 1 / 2 ^ 52
                \<and> \<bar>rat_of_int k / 100 - of_int (s_pts r) / of_int (max (s_mp r) 1)\<bar>
                     \<le> 1 / 200 + 1 / 2 ^ 52)
         \<and> (s_w r = 3 \<and> s_d r = 1 \<and> s_l r = 1 \<and> s_gf r = 9 \<and> s_ga r = 4 \<longrightarrow>
              s_mp r = 5 \<and> s_pts r = 10 \<and> s_gd r = 5 \<and> s_ppg r = 2)
         \<and> (s_mp r = 0 \<longrightarrow> s_ppg r = 0))"
proof -
  from build_total [OF assms] obtain conn' where
    ok: "build_and_store_standings h conn sn ms = Inr conn'" by blast
  have "s_mp r = mp (expected_stats sn ms (sn, s_stage_code r) (s_team_id r))
         \<and> s_w r = w (expected_stats sn ms (sn, s_stage_code r) (s_team_id r))
         \<and> s_d r = d (expected_stats sn ms (sn, s_stage_code r) (s_team_id r))
         \<and> s_l r = l (expected_stats sn ms (sn, s_stage_code r) (s_team_id r))
         \<and> s_gf r = gf (expected_stats sn ms (sn, s_stage_code r) (s_team_id r))
         \<and> s_ga r = ga (expected_stats sn ms (sn, s_stage_code r) (s_team_id r))
         \<and> s_gd r = s_gf r - s_ga r
         \<and> s_pts r = 3 * s_w r + s_d r
         \<and> s_ppg r = py_round2 (to_double (s_pts r) (max (s_mp r) 1))
         \<and> (\<exists>k. \<bar>s_ppg r - of_int k / 100\<bar> \<le> 1 / 2 ^ 52
                \<and> \<bar>rat_of_int k / 100 - of_int (s_pts r) / of_int (max (s_mp r) 1)\<bar>
                     \<le> 1 / 200 + 1 / 2 ^ 52)
         \<and> (s_w r = 3 \<and> s_d r = 1 \<and> s_l r = 1 \<and> s_gf r = 9 \<and> s_ga r = 4 \<longrightarrow>
              s_mp r = 5 \<and> s_pts r = 10 \<and> s_gd r = 5 \<and> s_ppg r = 2)
         \<and> (s_mp r = 0 \<longrightarrow> s_ppg r = 0)"
    if r: "r \<in> set (standings (disk conn'))" and sn: "s_season_year r = sn" for r
  proof -
    define e where "e = expected_stats sn ms (sn, s_stage_code r) (s_team_id r)"
    from build_row_shape [OF ok r sn] obtain aux where
      shape: "r = standings_row aux sn (s_stage_code r) (s_team_id r, e)"
      unfolding e_def by blast
    have inv: "0 \<le> w e" "0 \<le> d e" "0 \<le> l e" "mp e = w e + d e + l e"
      using expected_stats_inv [of sn ms "(sn, s_stage_code r)" "s_team_id r"]
      unfolding e_def by simp_all
    have f: "s_mp r = mp e" "s_w r = w e" "s_d r = d e" "s_l r = l e" "s_gf r = gf e"
      "s_ga r = ga e" "s_gd r = gf e - ga e" "s_pts r = w e * 3 + d e"
      "s_ppg r = py_round2 (to_double (w e * 3 + d e) (if mp e \<noteq> 0 then mp e else 1))"
      by (subst shape, simp add: standings_row_fields)+
    have guard: "(if mp e \<noteq> 0 then mp e else 1) = max (mp e) 1"
      using inv by simp
    have ppg: "s_ppg r = py_round2 (to_double (s_pts r) (max (s_mp r) 1))"
      by (simp only: f guard)
    have scen: "s_mp r = 5 \<and> s_pts r = 10 \<and> s_gd r = 5 \<and> s_ppg r = 2"
      if "s_w r = 3 \<and> s_d r = 1 \<and> s_l r = 1 \<and> s_gf r = 9 \<and> s_ga r = 4"
    proof -
      from that have "w e = 3" "d e = 1" "l e = 1" "gf e = 9" "ga e = 4"
        by (simp_all add: f)
      then show ?thesis
        using inv(4) by (simp add: f py_round2_ten_fifths)
    qed
    have zero: "s_ppg r = 0" if "s_mp r = 0"
    proof -
      from that inv have "w e = 0" "d e = 0" "mp e = 0" by (simp_all add: f)
      then show ?thesis by (simp add: f py_round2_zero)
    qed
    have g: "s_gd r = s_gf r - s_ga r" by (simp add: f)
    have p: "s_pts r = 3 * s_w r + s_d r" by (simp add: f)
    have "0 \<le> s_pts r" "0 < max (s_mp r) 1" "s_pts r \<le> 3 * max (s_mp r) 1"
      using inv by (simp_all add: f max_def)
    from py_round2_quotient [OF this]
    have near: "\<exists>k. \<bar>s_ppg r - of_int k / 100\<bar> \<le> 1 / 2 ^ 52
                \<and> \<bar>rat_of_int k / 100 - of_int (s_pts r) / of_int (max (s_mp r) 1)\<bar>
                     \<le> 1 / 200 + 1 / 2 ^ 52"
      by (simp only: ppg)
    from f(1-6) g p ppg near scen zero show ?thesis
      unfolding e_def [symmetric] by blast
  qed
  with ok show ?thesis by blast
qed

text \<open>In the example Nacional (team 1) has 3 wins, 1 draw and 1 loss in the apertura, with
  9 goals for and 4 against. Cerro (team 2) has 4 points from 3 matches: its \<open>ppg\<close> is the
  double nearest to 1.33, not the quotient \<open>4 / 3\<close>.\<close>

theorem derived_fields_of_rows_witness:
  "seeded_matches example_conn 2024 example_matches
   \<and> (\<exists>conn' r.
        build_and_store_standings example_helpers example_conn 2024 example_matches = Inr conn'
        \<and> row_of (disk conn') 2024 ''apertura'' 1 = [r]
        \<and> s_w r = 3 \<and> s_d r = 1 \<and> s_l r = 1 \<and> s_gf r = 9 \<and> s_ga r = 4
        \<and> s_mp r = 5 \<and> s_pts r = 10 \<and> s_gd r = 5 \<and> s_ppg r = 2
        \<and> (\<exists>k. \<bar>s_ppg r - of_int k / 100\<bar> \<le> 1 / 2 ^ 52
               \<and> \<bar>rat_of_int k / 100 - of_int (s_pts r) / of_int (max (s_mp r) 1)\<bar>
                    \<le> 1 / 200 + 1 / 2 ^ 52))
   \<and> take 2 (summary (build_and_store_standings example_helpers example_conn 2024
                example_matches))
      = [(''apertura'', 1, 5, 3, 1, 1, 9, 4, 5, 10, 2),
         (''apertura'', 2, 3, 1, 1, 1, 3, 5, - 2, 4, 748723438050345 / 562949953421312)]
   \<and> \<bar>748723438050345 / 562949953421312 - 133 / (100 :: rat)\<bar> \<le> 1 / 2 ^ 52
   \<and> 748723438050345 / 562949953421312 \<noteq> 4 / (3 :: rat)"
proof -
  have a: "seeded_matches example_conn 2024 example_matches" by (rule example_seeded)
  from derived_fields_of_rows [OF a, of example_helpers] obtain conn' where
    ok: "build_and_store_standings example_helpers example_conn 2024 example_matches = Inr conn'"
    and all: "\<And>r. r \<in> set (standings (disk conn')) \<Longrightarrow> s_season_year r = 2024 \<Longrightarrow>
           (s_w r = 3 \<and> s_d r = 1 \<and> s_l r = 1 \<and> s_gf r = 9 \<and> s_ga r = 4 \<longrightarrow>
              s_mp r = 5 \<and> s_pts r = 10 \<and> s_gd r = 5 \<and> s_ppg r = 2)
           \<and> (\<exists>k. \<bar>s_ppg r - of_int k / 100\<bar> \<le> 1 / 2 ^ 52
               \<and> \<bar>rat_of_int k / 100 - of_int (s_pts r) / of_int (max (s_mp r) 1)\<bar>
                    \<le> 1 / 200 + 1 / 2 ^ 52)"
    by blast
  have st: "''apertura'' \<in> set all_stages" by (simp add: all_stages_def)
  have c: "1 \<in> t_id ` set (teams (view example_conn))" by code_simp
  from build_row [OF ok _ c, of "''apertura''"] st obtain aux where
    row: "row_of (disk conn') 2024 ''apertura'' 1
            = [standings_row aux 2024 ''apertura''
                 (1, expected_stats 2024 example_matches (2024, ''apertura'') 1)]"
    by blast
  define r where "r = standings_row aux 2024 ''apertura''
                 (1, expected_stats 2024 example_matches (2024, ''apertura'') 1)"
  have e: "expected_stats 2024 example_matches (2024, ''apertura'') 1
             = \<lparr> mp = 5, w = 3, d = 1, l = 1, gf = 9, ga = 4 \<rparr>"
    by code_simp
  have counts: "s_w r = 3 \<and> s_d r = 1 \<and> s_l r = 1 \<and> s_gf r = 9 \<and> s_ga r = 4"
    by (simp add: r_def standings_row_fields e)
  have "r \<in> set (row_of (disk conn') 2024 ''apertura'' 1)"
    by (simp add: row r_def)
  then have mem: "r \<in> set (standings (disk conn'))" and sn: "s_season_year r = 2024"
    by (simp_all add: row_of_def)
  from all [OF mem sn] counts have "s_mp r = 5 \<and> s_pts r = 10 \<and> s_gd r = 5 \<and> s_ppg r = 2"
    and near: "\<exists>k. \<bar>s_ppg r - of_int k / 100\<bar> \<le> 1 / 2 ^ 52
               \<and> \<bar>rat_of_int k / 100 - of_int (s_pts r) / of_int (max (s_mp r) 1)\<bar>
                    \<le> 1 / 200 + 1 / 2 ^ 52"
    by blast+
  with a ok row counts have first: "seeded_matches example_conn 2024 example_matches
   \<and> (\<exists>conn' r.
        build_and_store_standings example_helpers example_conn 2024 example_matches = Inr conn'
        \<and> row_of (disk conn') 2024 ''apertura'' 1 = [r]
        \<and> s_w r = 3 \<and> s_d r = 1 \<and> s_l r = 1 \<and> s_gf r = 9 \<and> s_ga r = 4
        \<and> s_mp r = 5 \<and> s_pts r = 10 \<and> s_gd r = 5 \<and> s_ppg r = 2
        \<and> (\<exists>k. \<bar>s_ppg r - of_int k / 100\<bar> \<le> 1 / 2 ^ 52
               \<and> \<bar>rat_of_int k / 100 - of_int (s_pts r) / of_int (max (s_mp r) 1)\<bar>
                    \<le> 1 / 200 + 1 / 2 ^ 52))"
    unfolding r_def [symmetric] by blast
  have second: "take 2 (summary (build_and_store_standings example_helpers example_conn 2024
                example_matches))
      = [(''apertura'', 1, 5, 3, 1, 1, 9, 4, 5, 10, 2),
         (''apertura'', 2, 3, 1, 1, 1, 3, 5, - 2, 4, 748723438050345 / 562949953421312)]"
    by (simp add: example_summary)
  have third: "\<bar>748723438050345 / 562949953421312 - 133 / (100 :: rat)\<bar> \<le> 1 / 2 ^ 52"
    "748723438050345 / 562949953421312 \<noteq> 4 / (3 :: rat)"
    by simp_all
  from first second third show ?thesis by blast
qed

text \<open>
  Claim C1. For every team of a seeded season the persisted anual row has each of the six
  counting fields equal to the sum of the apertura and the clausura row's fields; its
  \<open>pts\<close>, \<open>gd\<close> and \<open>ppg\<close> are computed from these sums. When no match of the season is a
  clausura match, the counting fields of the anual row are those of the apertura row.
\<close>

theorem annual_row_sums_stage_rows:
  assumes "seeded_matches conn sn ms"
    and "tid \<in> t_id ` set (teams (view conn))"
  shows "\<exists>conn' ra rc rn. build_and_store_standings h conn sn ms = Inr conn'
     \<and> row_of (disk conn') sn ''apertura'' tid = [ra]
     \<and> row_of (disk conn') sn ''clausura'' tid = [rc]
     \<and> row_of (disk conn') sn ''anual'' tid = [rn]
     \<and> s_mp rn = s_mp ra + s_mp rc \<and> s_w rn = s_w ra + s_w rc \<and> s_d rn = s_d ra + s_d rc
     \<and> s_l rn = s_l ra + s_l rc \<and> s_gf rn = s_gf ra + s_gf rc \<and> s_ga rn = s_ga ra + s_ga rc
     \<and> s_pts rn = 3 * s_w rn + s_d rn
     \<and> s_gd rn = s_gf rn - s_ga rn
     \<and> s_ppg rn = py_round2 (to_double (s_pts rn) (max (s_mp rn) 1))
     \<and> ((\<forall>m \<in> set ms. stage_code m \<noteq> ''clausura'') \<longrightarrow>
          s_mp rn = s_mp ra \<and> s_w rn = s_w ra \<and> s_d rn = s_d ra \<and> s_l rn = s_l ra
          \<and> s_gf rn = s_gf ra \<and> s_ga rn = s_ga ra)"
proof -
  from build_total [OF assms(1)] obtain conn' where
    ok: "build_and_store_standings h conn sn ms = Inr conn'" by blast
  define ea where "ea = team_tally sn ''apertura'' tid ms"
  define ec where "ec = team_tally sn ''clausura'' tid ms"
  have xa: "expected_stats sn ms (sn, ''apertura'') tid = ea"
    and xc: "expected_stats sn ms (sn, ''clausura'') tid = ec"
    and xn: "expected_stats sn ms (sn, ''anual'') tid = add_stats ea ec"
    by (simp_all add: expected_stats_def ea_def ec_def)
  have stages: "''apertura'' \<in> set all_stages" "''clausura'' \<in> set all_stages"
    "''anual'' \<in> set all_stages"
    by (simp_all add: all_stages_def)
  from build_row [OF ok _ assms(2), of "''apertura''"] stages(1) obtain aux_a where
    ra: "row_of (disk conn') sn ''apertura'' tid = [standings_row aux_a sn ''apertura'' (tid, ea)]"
    unfolding xa by blast
  from build_row [OF ok _ assms(2), of "''clausura''"] stages(2) obtain aux_c where
    rc: "row_of (disk conn') sn ''clausura'' tid = [standings_row aux_c sn ''clausura'' (tid, ec)]"
    unfolding xc by blast
  from build_row [OF ok _ assms(2), of "''anual''"] stages(3) obtain aux_n where
    rn: "row_of (disk conn') sn ''anual'' tid
           = [standings_row aux_n sn ''anual'' (tid, add_stats ea ec)]"
    unfolding xn by blast
  define a where "a = standings_row aux_a sn ''apertura'' (tid, ea)"
  define c where "c = standings_row aux_c sn ''clausura'' (tid, ec)"
  define n where "n = standings_row aux_n sn ''anual'' (tid, add_stats ea ec)"
  have sums: "s_mp n = s_mp a + s_mp c" "s_w n = s_w a + s_w c" "s_d n = s_d a + s_d c"
    "s_l n = s_l a + s_l c" "s_gf n = s_gf a + s_gf c" "s_ga n = s_ga a + s_ga c"
    by (simp_all add: a_def c_def n_def standings_row_fields add_stats_def)
  have derived: "s_pts n = 3 * s_w n + s_d n" "s_gd n = s_gf n - s_ga n"
    by (simp_all add: n_def standings_row_fields)
  have "0 \<le> mp (add_stats ea ec)"
    using expected_stats_inv [of sn ms "(sn, ''anual'')" tid] unfolding xn by simp
  then have guard: "(if mp (add_stats ea ec) \<noteq> 0 then mp (add_stats ea ec) else 1)
                      = max (mp (add_stats ea ec)) 1"
    by simp
  have ppg_n: "s_ppg n = py_round2 (to_double (s_pts n) (max (s_mp n) 1))"
    unfolding n_def standings_row_fields guard ..
  have only: "s_mp n = s_mp a \<and> s_w n = s_w a \<and> s_d n = s_d a \<and> s_l n = s_l a
          \<and> s_gf n = s_gf a \<and> s_ga n = s_ga a"
    if "\<forall>m \<in> set ms. stage_code m \<noteq> ''clausura''"
  proof -
    from that have "ec = zero_stats"
      unfolding ec_def by (intro team_tally_zero) simp
    then show ?thesis
      by (simp add: a_def n_def standings_row_fields)
  qed
  from ok ra rc rn sums derived ppg_n only show ?thesis
    unfolding a_def [symmetric] c_def [symmetric] n_def [symmetric] by blast
qed

text \<open>In the example Nacional has 5 apertura matches and 1 clausura match, so 6 in the
  annual table; its points per game are 2.0, 3.0 and 2.17, and 2.17 is not the sum of the
  stages' values. With the apertura matches alone the annual counts are the apertura
  counts.\<close>

theorem annual_row_sums_stage_rows_witness:
  "seeded_matches example_conn 2024 example_matches
   \<and> 1 \<in> t_id ` set (teams (view example_conn))
   \<and> (\<exists>conn' ra rc rn.
        build_and_store_standings example_helpers example_conn 2024 example_matches = Inr conn'
        \<and> row_of (disk conn') 2024 ''apertura'' 1 = [ra]
        \<and> row_of (disk conn') 2024 ''clausura'' 1 = [rc]
        \<and> row_of (disk conn') 2024 ''anual'' 1 = [rn]
        \<and> s_mp rn = s_mp ra + s_mp rc \<and> s_w rn = s_w ra + s_w rc \<and> s_d rn = s_d ra + s_d rc
        \<and> s_l rn = s_l ra + s_l rc \<and> s_gf rn = s_gf ra + s_gf rc
        \<and> s_ga rn = s_ga ra + s_ga rc)
   \<and> seeded_matches example_conn 2024 apertura_matches
   \<and> (\<exists>conn' ra rn.
        build_and_store_standings example_helpers example_conn 2024 apertura_matches = Inr conn'
        \<and> row_of (disk conn') 2024 ''apertura'' 1 = [ra]
        \<and> row_of (disk conn') 2024 ''anual'' 1 = [rn]
        \<and> s_mp rn = s_mp ra \<and> s_w rn = s_w ra \<and> s_d rn = s_d ra \<and> s_l rn = s_l ra
        \<and> s_gf rn = s_gf ra \<and> s_ga rn = s_ga ra)
   \<and> summary (build_and_store_standings example_helpers example_conn 2024 example_matches) ! 0
        = (''apertura'', 1, 5, 3, 1, 1, 9, 4, 5, 10, 2)
   \<and> summary (build_and_store_standings example_helpers example_conn 2024 example_matches) ! 3
        = (''clausura'', 1, 1, 1, 0, 0, 3, 0, 3, 3, 3)
   \<and> summary (build_and_store_standings example_helpers example_conn 2024 example_matches) ! 9
        = (''anual'', 1, 6, 4, 1, 1, 12, 4, 8, 13, 1221601398924247 / 562949953421312)"
proof -
  have a: "seeded_matches example_conn 2024 example_matches" by (rule example_seeded)
  have b: "seeded_matches example_conn 2024 apertura_matches" by (rule example_seeded_apertura)
  have c: "1 \<in> t_id ` set (teams (view example_conn))" by code_simp
  have no_cl: "\<forall>m \<in> set apertura_matches. stage_code m \<noteq> ''clausura''" by code_simp
  from annual_row_sums_stage_rows [OF a c, of example_helpers]
  have first: "\<exists>conn' ra rc rn.
        build_and_store_standings example_helpers example_conn 2024 example_matches = Inr conn'
        \<and> row_of (disk conn') 2024 ''apertura'' 1 = [ra]
        \<and> row_of (disk conn') 2024 ''clausura'' 1 = [rc]
        \<and> row_of (disk conn') 2024 ''anual'' 1 = [rn]
        \<and> s_mp rn = s_mp ra + s_mp rc \<and> s_w rn = s_w ra + s_w rc \<and> s_d rn = s_d ra + s_d rc
        \<and> s_l rn = s_l ra + s_l rc \<and> s_gf rn = s_gf ra + s_gf rc
        \<and> s_ga rn = s_ga ra + s_ga rc"
    by blast
  from annual_row_sums_stage_rows [OF b c, of example_helpers] no_cl
  have second: "\<exists>conn' ra rn.
        build_and_store_standings example_helpers example_conn 2024 apertura_matches = Inr conn'
        \<and> row_of (disk conn') 2024 ''apertura'' 1 = [ra]
        \<and> row_of (disk conn') 2024 ''anual'' 1 = [rn]
        \<and> s_mp rn = s_mp ra \<and> s_w rn = s_w ra \<and> s_d rn = s_d ra \<and> s_l rn = s_l ra
        \<and> s_gf rn = s_gf ra \<and> s_ga rn = s_ga ra"
    by blast
  from a b c first second show ?thesis
    by (simp add: example_summary)
qed

section \<open>Ranking order\<close>

lemma key_le_iff:
  "((- p1, - g1, - f1, n1) \<le> (- p2, - g2, - f2, n2 :: string))
     \<longleftrightarrow> ranks_before (p1, g1, f1, n1) (p2 :: int, g2 :: int, f2 :: int, n2)"
  by (auto simp: ranks_before_def less_eq_prod_def)

lemma sorted_key_rank_order:
  assumes "sorted (map (\<lambda>x. case rank x of (p, g, f, n) \<Rightarrow> (- p, - g, - f, n)) rs)"
  shows "in_rank_order rank rs"
  unfolding in_rank_order_def
proof (intro allI impI)
  fix i j assume ij: "i < j \<and> j < length rs"
  with assms have "(case rank (rs ! i) of (p, g, f, n) \<Rightarrow> (- p, - g, - f, n))
                     \<le> (case rank (rs ! j) of (p, g, f, n) \<Rightarrow> (- p, - g, - f, n))"
    by (auto simp: sorted_iff_nth_mono_less)
  then show "ranks_before (rank (rs ! i)) (rank (rs ! j))"
    by (cases "rank (rs ! i)"; cases "rank (rs ! j)")
       (auto simp: ranks_before_def less_eq_prod_def)
qed

lemma table_rows_rank_order:
  "in_rank_order (s_rank tn) (table_rows tn aux sn st table)"
proof (rule sorted_key_rank_order)
  have "(\<lambda>x. case s_rank tn x of (p, g, f, n) \<Rightarrow> (- p, - g, - f, n))
          = (\<lambda>r. (- s_pts r, - s_gd r, - s_gf r, get_or (map_of tn) (s_team_id r) []))"
    by (simp add: s_rank_def)
  then show "sorted (map (\<lambda>x. case s_rank tn x of (p, g, f, n) \<Rightarrow> (- p, - g, - f, n))
                (table_rows tn aux sn st table))"
    by (simp add: table_rows_def sort_rows_def)
qed

lemma compute_table_nth:
  assumes "i < length (table_query db sn st)"
  shows "rows (compute_table db now sn st) ! i = normalize_row (i + 1, table_query db sn st ! i)"
  using assms by (simp add: compute_table_def nth_enumerate_eq)

lemma compute_table_length:
  "length (rows (compute_table db now sn st)) = length (table_query db sn st)"
  by (simp add: compute_table_def)

lemma compute_table_pos:
  assumes "i < length (rows (compute_table db now sn st))"
  shows "pos (rows (compute_table db now sn st) ! i) = int i + 1"
  using assms
  by (simp add: compute_table_length compute_table_nth normalize_row_def split_def)

lemma compute_table_rank_order:
  "in_rank_order t_rank (rows (compute_table db now sn st))"
proof -
  have srt: "sorted (map (\<lambda>(s, t). (- s_pts s, - s_gd s, - s_gf s, t_name t)) (table_query db sn st))"
    unfolding table_query_def by (rule sorted_sort_key)
  show ?thesis
    unfolding in_rank_order_def
  proof (intro allI impI)
    fix i j assume ij: "i < j \<and> j < length (rows (compute_table db now sn st))"
    then have j: "j < length (table_query db sn st)" and i: "i < length (table_query db sn st)"
      by (simp_all add: compute_table_length)
    obtain s1 t1 where p1: "table_query db sn st ! i = (s1, t1)" by (cases "table_query db sn st ! i")
    obtain s2 t2 where p2: "table_query db sn st ! j = (s2, t2)" by (cases "table_query db sn st ! j")
    from srt ij j have "(- s_pts s1, - s_gd s1, - s_gf s1, t_name t1)
                      \<le> (- s_pts s2, - s_gd s2, - s_gf s2, t_name t2)"
      using sorted_iff_nth_mono_less [THEN iffD1, OF srt, rule_format, of i j] i
      by (simp add: p1 p2)
    then have "ranks_before (s_pts s1, s_gd s1, s_gf s1, t_name t1)
                 (s_pts s2, s_gd s2, s_gf s2, t_name t2)"
      by (simp only: key_le_iff)
    then show "ranks_before (t_rank (rows (compute_table db now sn st) ! i))
                 (t_rank (rows (compute_table db now sn st) ! j))"
      by (simp add: compute_table_nth i j p1 p2 normalize_row_def t_rank_def)
  qed
qed

lemma rank_order_decides:
  assumes ord: "in_rank_order rank rs"
    and a: "i < length rs" and b: "j < length rs"
    and strict: "\<not> ranks_before (rank (rs ! j)) (rank (rs ! i))"
  shows "i < j"
proof (rule ccontr)
  assume "\<not> i < j"
  then consider "j < i" | "j = i" by linarith
  then show False
  proof cases
    case 1
    with ord a have "ranks_before (rank (rs ! j)) (rank (rs ! i))"
      by (simp add: in_rank_order_def)
    with strict show False by contradiction
  next
    case 2
    have "ranks_before (rank (rs ! i)) (rank (rs ! i))"
      by (cases "rank (rs ! i)") (simp add: ranks_before_def)
    with strict 2 show False by simp
  qed
qed

lemma compute_table_tie_breaks:
  assumes a: "a \<in> set (rows (compute_table db now sn st))"
    and b: "b \<in> set (rows (compute_table db now sn st))"
    and eq: "pts a = pts b" "gd a = gd b"
    and tie: "gf a > gf b \<or> (gf a = gf b \<and> team a < team b)"
  shows "pos a < pos b"
proof -
  define rs where "rs = rows (compute_table db now sn st)"
  from a obtain i where i: "i < length rs" "rs ! i = a"
    unfolding rs_def by (auto simp: in_set_conv_nth)
  from b obtain j where j: "j < length rs" "rs ! j = b"
    unfolding rs_def by (auto simp: in_set_conv_nth)
  have "\<not> ranks_before (t_rank (rs ! j)) (t_rank (rs ! i))"
    using eq tie by (auto simp: i j t_rank_def ranks_before_def)
  from rank_order_decides [OF _ i(1) j(1) this] compute_table_rank_order [of db now sn st]
  have "i < j" unfolding rs_def by blast
  moreover have "pos a = int i + 1" "pos b = int j + 1"
    using compute_table_pos [of i db now sn st] compute_table_pos [of j db now sn st] i j
    unfolding rs_def by simp_all
  ultimately show ?thesis by simp
qed

section \<open>Ranking order of the persisted rows\<close>

lemma map_of_foldl_update:
  "map_of (foldl (\<lambda>acc (k, v). AList.update k v acc) acc kvs) = map_of acc ++ map_of (rev kvs)"
proof (induction kvs arbitrary: acc)
  case Nil
  show ?case by simp
next
  case (Cons kv kvs)
  obtain k v where kv: "kv = (k, v)" by (cases kv)
  have "map_of (foldl (\<lambda>acc (k, v). AList.update k v acc) acc (kv # kvs))
          = map_of (AList.update k v acc) ++ map_of (rev kvs)"
    by (simp add: kv Cons.IH)
  also have "map_of (AList.update k v acc) = map_of acc ++ [k \<mapsto> v]"
    by (simp add: update_conv' map_add_upd)
  also have "(map_of acc ++ [k \<mapsto> v]) ++ map_of (rev kvs)
               = map_of acc ++ map_of (rev (kv # kvs))"
    by (simp add: kv map_add_assoc [symmetric])
  finally show ?case .
qed

lemma team_names_lookup:
  assumes "distinct (map t_id (teams db))" and "t \<in> set (teams db)"
  shows "get_or (map_of (team_names_of db)) (t_id t) dflt = t_name t"
proof -
  let ?kvs = "map (\<lambda>t. (t_id t, t_name t)) (teams db)"
  from assms(1) have "distinct (map fst ?kvs)" by (simp add: comp_def)
  then have "distinct (rev (map fst ?kvs))" by (simp only: distinct_rev)
  then have "distinct (map fst (rev ?kvs))" by (simp only: rev_map)
  moreover from assms(2) have "(t_id t, t_name t) \<in> set (rev ?kvs)" by auto
  ultimately have "map_of (rev ?kvs) (t_id t) = Some (t_name t)"
    by (rule map_of_is_SomeI)
  then have "map_of (team_names_of db) (t_id t) = Some (t_name t)"
    by (simp add: team_names_of_def dict_of_def map_of_foldl_update)
  then show ?thesis by (simp add: get_or_def)
qed

lemma named_rank_orderI:
  assumes ord: "in_rank_order (s_rank (team_names_of db)) rs"
    and dist: "distinct (map t_id (teams db))"
  shows "named_rank_order (teams db) rs"
  unfolding named_rank_order_def
proof (intro allI impI ballI)
  fix i j a b
  assume ij: "i < j \<and> j < length rs" and a: "a \<in> set (teams db)" and b: "b \<in> set (teams db)"
    and ids: "t_id a = s_team_id (rs ! i) \<and> t_id b = s_team_id (rs ! j)"
  from ord ij have "ranks_before (s_rank (team_names_of db) (rs ! i))
                      (s_rank (team_names_of db) (rs ! j))"
    by (simp add: in_rank_order_def)
  moreover have "s_rank (team_names_of db) (rs ! i)
                   = (s_pts (rs ! i), s_gd (rs ! i), s_gf (rs ! i), t_name a)"
    using team_names_lookup [OF dist a, of "[]"] ids by (simp add: s_rank_def)
  moreover have "s_rank (team_names_of db) (rs ! j)
                   = (s_pts (rs ! j), s_gd (rs ! j), s_gf (rs ! j), t_name b)"
    using team_names_lookup [OF dist b, of "[]"] ids by (simp add: s_rank_def)
  ultimately show "ranks_before (s_pts (rs ! i), s_gd (rs ! i), s_gf (rs ! i), t_name a)
                        (s_pts (rs ! j), s_gd (rs ! j), s_gf (rs ! j), t_name b)"
    by simp
qed

lemma table_rows_team_ids:
  "s_team_id ` set (table_rows tn aux sn st (expected_table tn sn st ms)) = fst ` set tn"
  by (force simp: table_rows_set expected_table_def image_image)

lemma tie_seeded: "seeded_matches example_conn 2024 tie_matches"
  by code_simp

lemma tie_stored:
  "stored_order (build_and_store_standings example_helpers example_conn 2024 tie_matches)
      ''apertura''
     = [(''Cerro'', 2, 0, 3), (''Nacional'', 1, 0, 2), (''Danubio'', 1, 0, 1)]"
  "stored_order (build_and_store_standings example_helpers example_conn 2024 tie_matches)
      ''clausura''
     = [(''Cerro'', 0, 0, 0), (''Danubio'', 0, 0, 0), (''Nacional'', 0, 0, 0)]"
  by code_simp+

text \<open>
  Claim C3. The rows persisted for a season and stage stand, in insertion order, in the
  ranking order: points descending, then goal difference descending, then goals for
  descending, then ascending display name of the row's team in the teams table (team ids
  are the primary key of that table). The rows that \<^verbatim>\<open>compute_table\<close> returns stand in
  the same order, with positions 1, 2, ... in that order; of two returned rows with equal
  points and goal difference the one with more goals for has the smaller position, and
  with equal goals for the one whose team name is smaller.
\<close>

theorem standings_in_rank_order:
  assumes "seeded_matches conn sn ms" and "st \<in> set all_stages"
    and "distinct (map t_id (teams (view conn)))"
  shows "\<exists>conn'. build_and_store_standings h conn sn ms = Inr conn'
     \<and> teams (disk conn') = teams (view conn)
     \<and> s_team_id ` set (rows_for (disk conn') sn st) = t_id ` set (teams (disk conn'))
     \<and> named_rank_order (teams (disk conn')) (rows_for (disk conn') sn st)
     \<and> in_rank_order (s_rank (team_names_of (view conn))) (rows_for (disk conn') sn st)
     \<and> in_rank_order t_rank (rows (compute_table db now sn' st'))
     \<and> (\<forall>i < length (rows (compute_table db now sn' st')).
           pos (rows (compute_table db now sn' st') ! i) = int i + 1)
     \<and> (\<forall>a \<in> set (rows (compute_table db now sn' st')).
         \<forall>b \<in> set (rows (compute_table db now sn' st')).
           pts a = pts b \<and> gd a = gd b \<and> (gf a > gf b \<or> (gf a = gf b \<and> team a < team b))
             \<longrightarrow> pos a < pos b)"
proof -
  from build_total [OF assms(1)] obtain conn' where
    ok: "build_and_store_standings h conn sn ms = Inr conn'" by blast
  note same = build_Inr(2) [OF ok]
  from build_Inr(3) [OF ok, of st] assms(2) obtain aux where rows:
    "rows_for (disk conn') sn st =
       table_rows (team_names_of (view conn)) aux sn st
         (expected_table (team_names_of (view conn)) sn st ms)"
    by blast
  then have persisted:
    "in_rank_order (s_rank (team_names_of (view conn))) (rows_for (disk conn') sn st)"
    by (simp add: table_rows_rank_order)
  from named_rank_orderI [OF persisted assms(3)] same
  have named: "named_rank_order (teams (disk conn')) (rows_for (disk conn') sn st)"
    by simp
  have ids: "s_team_id ` set (rows_for (disk conn') sn st) = t_id ` set (teams (disk conn'))"
    by (simp only: rows table_rows_team_ids team_names_keys same)
  have ties: "\<forall>a \<in> set (rows (compute_table db now sn' st')).
         \<forall>b \<in> set (rows (compute_table db now sn' st')).
           pts a = pts b \<and> gd a = gd b \<and> (gf a > gf b \<or> (gf a = gf b \<and> team a < team b))
             \<longrightarrow> pos a < pos b"
    using compute_table_tie_breaks by blast
  from ok same ids named persisted compute_table_rank_order [of db now sn' st']
    compute_table_pos ties
  show ?thesis by blast
qed

text \<open>In the first example Nacional and Cerro draw 2-2 and Danubio and Cerro draw 1-1 in
  the apertura: Cerro has 2 points; Nacional and Danubio have 1 point and goal difference
  0, and Nacional, with 2 goals for against 1, is stored before Danubio. No team has a
  clausura match, and the clausura rows are stored in the order of the names. In the
  second example the three teams of the store have 4 points and goal difference 0;
  Nacional has 5 goals for, Cerro and Danubio 3 each. The rows are stored in the order
  Danubio, Cerro, Nacional and returned in the order Nacional, Cerro, Danubio.\<close>

theorem standings_in_rank_order_witness:
  "seeded_matches example_conn 2024 tie_matches
   \<and> ''apertura'' \<in> set all_stages
   \<and> distinct (map t_id (teams (view example_conn)))
   \<and> (\<exists>conn'.
        build_and_store_standings example_helpers example_conn 2024 tie_matches = Inr conn'
        \<and> named_rank_order (teams (disk conn')) (rows_for (disk conn') 2024 ''apertura'')
        \<and> s_team_id ` set (rows_for (disk conn') 2024 ''apertura'')
             = t_id ` set (teams (disk conn')))
   \<and> stored_order (build_and_store_standings example_helpers example_conn 2024 tie_matches)
        ''apertura''
      = [(''Cerro'', 2, 0, 3), (''Nacional'', 1, 0, 2), (''Danubio'', 1, 0, 1)]
   \<and> stored_order (build_and_store_standings example_helpers example_conn 2024 tie_matches)
        ''clausura''
      = [(''Cerro'', 0, 0, 0), (''Danubio'', 0, 0, 0), (''Nacional'', 0, 0, 0)]
   \<and> in_rank_order t_rank (rows (compute_table tie_store ''2024-03-01T10:00:00'' 2024 ''apertura''))
   \<and> map (\<lambda>r. (pos r, team r, pts r, gd r, gf r))
        (rows (compute_table tie_store ''2024-03-01T10:00:00'' 2024 ''apertura''))
      = [(1, ''Nacional'', 4, 0, 5), (2, ''Cerro'', 4, 0, 3), (3, ''Danubio'', 4, 0, 3)]"
proof -
  have a: "seeded_matches example_conn 2024 tie_matches" by (rule tie_seeded)
  have b: "''apertura'' \<in> set all_stages" by (simp add: all_stages_def)
  have c: "distinct (map t_id (teams (view example_conn)))" by code_simp
  from standings_in_rank_order [OF a b c, of example_helpers tie_store
      "''2024-03-01T10:00:00''" 2024 "''apertura''"]
  have d: "\<exists>conn'.
        build_and_store_standings example_helpers example_conn 2024 tie_matches = Inr conn'
        \<and> named_rank_order (teams (disk conn')) (rows_for (disk conn') 2024 ''apertura'')
        \<and> s_team_id ` set (rows_for (disk conn') 2024 ''apertura'')
             = t_id ` set (teams (disk conn'))"
    and e: "in_rank_order t_rank
              (rows (compute_table tie_store ''2024-03-01T10:00:00'' 2024 ''apertura''))"
    by blast+
  have f: "map (\<lambda>r. (pos r, team r, pts r, gd r, gf r))
        (rows (compute_table tie_store ''2024-03-01T10:00:00'' 2024 ''apertura''))
      = [(1, ''Nacional'', 4, 0, 5), (2, ''Cerro'', 4, 0, 3), (3, ''Danubio'', 4, 0, 3)]"
    by code_simp
  from a b c d e f tie_stored show ?thesis
    by blast
qed

section \<open>The scorers query\<close>

text \<open>\<^verbatim>\<open>ORDER BY goals DESC, player ASC LIMIT ?\<close>. SQL leaves the order of rows that tie on
  both keys to the engine. The engine's order of the groups is the parameter \<open>arrange\<close>,
  a permutation of the groups; the stable sort keeps it on ties.\<close>

text \<open>The stages that a queried stage covers, in the words of the specification: anual
  stands for apertura and clausura, every other stage for itself.\<close>

lemma scorers_join_concat:
  "scorers_join db sn st = concat (map (event_join db sn st) (match_events db))"
  by (simp add: scorers_join_def event_join_def [abs_def])

lemma stage_covers_iff: "code \<in> set (stages_for_query st) \<longleftrightarrow> stage_covers st code"
  by (simp add: stages_for_query_def stage_covers_def)

lemma set_event_join:
  "(e', m, p, t) \<in> set (event_join db sn st e) \<longleftrightarrow>
     e' = e \<and> m \<in> set (matches db) \<and> p \<in> set (players db) \<and> t \<in> set (teams db)
     \<and> e_match_id e = m_id m \<and> e_player_id e = Some (p_id p) \<and> p_team_id p = t_id t
     \<and> m_season_year m = sn \<and> m_stage_code m \<in> set (stages_for_query st)
     \<and> e_type e = ''goal''"
  by (auto simp: event_join_def)

lemma set_scorers_join:
  "(e, m, p, t) \<in> set (scorers_join db sn st) \<longleftrightarrow>
     e \<in> set (match_events db) \<and> m \<in> set (matches db) \<and> p \<in> set (players db)
     \<and> t \<in> set (teams db)
     \<and> e_match_id e = m_id m \<and> e_player_id e = Some (p_id p) \<and> p_team_id p = t_id t
     \<and> m_season_year m = sn \<and> m_stage_code m \<in> set (stages_for_query st)
     \<and> e_type e = ''goal''"
  by (auto simp: scorers_join_concat set_event_join)

lemma length_concat_unique:
  assumes "distinct (map f xs)" and "\<And>x. length (g x) \<le> 1"
  shows "length (concat (map (\<lambda>x. if k = f x then g x else []) xs)) \<le> 1"
  using assms(1)
proof (induction xs)
  case Nil
  show ?case by simp
next
  case (Cons x xs)
  show ?case
  proof (cases "k = f x")
    case True
    with Cons.prems have "\<forall>y \<in> set xs. k \<noteq> f y" by auto
    then have rest: "concat (map (\<lambda>x. if k = f x then g x else []) xs) = []"
      by (induction xs) simp_all
    have "concat (map (\<lambda>x. if k = f x then g x else []) (x # xs))
            = g x @ concat (map (\<lambda>x. if k = f x then g x else []) xs)"
      using True by simp
    also have "\<dots> = g x"
      unfolding rest by simp
    finally show ?thesis
      using assms(2) [of x] by simp
  next
    case False
    with Cons show ?thesis by simp
  qed
qed

lemma event_join_length:
  assumes "primary_keys db"
  shows "length (event_join db sn st e) \<le> 1"
proof -
  have dm: "distinct (map m_id (matches db))"
    and dp: "distinct (map (\<lambda>p. Some (p_id p)) (players db))"
    and dt: "distinct (map t_id (teams db))"
    using assms by (simp_all add: primary_keys_def distinct_map inj_on_def)
  have "event_join db sn st e =
      concat (map (\<lambda>m. if e_match_id e = m_id m then
        concat (map (\<lambda>p. if e_player_id e = Some (p_id p) then
          concat (map (\<lambda>t. if p_team_id p = t_id t then
             (if m_season_year m = sn \<and> m_stage_code m \<in> set (stages_for_query st)
                 \<and> e_type e = ''goal'' then [(e, m, p, t)] else [])
            else []) (teams db))
          else []) (players db))
        else []) (matches db))"
    by (simp add: event_join_def)
  also have "length \<dots> \<le> 1"
    by (intro length_concat_unique dm dp dt) simp
  finally show ?thesis .
qed

lemma length_filter_concat:
  "length (filter P (concat xss)) = sum_list (map (\<lambda>xs. length (filter P xs)) xss)"
  by (induction xss) simp_all

lemma length_filter_sum:
  "length (filter Q xs) = sum_list (map (\<lambda>x. if Q x then 1 else 0) xs)"
  by (induction xs) simp_all

lemma length_filter_short:
  assumes "length xs \<le> 1"
  shows "length (filter P xs) = (if \<exists>x \<in> set xs. P x then 1 else 0)"
proof (cases xs)
  case Nil
  then show ?thesis by simp
next
  case (Cons x ys)
  with assms have "ys = []" by simp
  with Cons show ?thesis by simp
qed

lemma unique_by_key:
  assumes "distinct (map f xs)" and "x \<in> set xs" and "y \<in> set xs" and "f x = f y"
  shows "x = y"
  using assms by (metis distinct_map inj_on_def)

lemma group_count:
  assumes pk: "primary_keys db"
    and x0: "(e0, m0, p0, t0) \<in> set (scorers_join db sn st)"
  shows "int (length [x \<leftarrow> scorers_join db sn st.
                        scorers_group_key x = scorers_group_key (e0, m0, p0, t0)])
           = goals_of db sn st (p_id p0)"
proof -
  from x0 have p0: "p0 \<in> set (players db)" and t0: "t0 \<in> set (teams db)"
    and pt0: "p_team_id p0 = t_id t0"
    by (simp_all add: set_scorers_join)
  have dp: "distinct (map p_id (players db))" and dt: "distinct (map t_id (teams db))"
    and dm: "distinct (map m_id (matches db))"
    using pk by (simp_all add: primary_keys_def)
  define P where "P = (\<lambda>x :: MatchEvent \<times> Match \<times> Player \<times> Team. p_id (fst (snd (snd x))) = p_id p0)"
  have same: "(scorers_group_key x = scorers_group_key (e0, m0, p0, t0)) = P x"
    if "x \<in> set (scorers_join db sn st)" for x
  proof -
    obtain e m p t where x: "x = (e, m, p, t)" by (cases x) auto
    from that have p: "p \<in> set (players db)" and t: "t \<in> set (teams db)"
      and pt: "p_team_id p = t_id t"
      by (simp_all add: x set_scorers_join)
    show ?thesis
    proof
      assume "scorers_group_key x = scorers_group_key (e0, m0, p0, t0)"
      then show "P x" by (simp add: x scorers_group_key_def P_def)
    next
      assume "P x"
      then have "p_id p = p_id p0" by (simp add: x P_def)
      then have "p = p0" using unique_by_key [OF dp p p0] by simp
      with pt pt0 have "t_id t = t_id t0" by simp
      then have "t = t0" using unique_by_key [OF dt t t0] by simp
      with \<open>p = p0\<close> show "scorers_group_key x = scorers_group_key (e0, m0, p0, t0)"
        by (simp add: x scorers_group_key_def)
    qed
  qed
  have "length [x \<leftarrow> scorers_join db sn st.
                  scorers_group_key x = scorers_group_key (e0, m0, p0, t0)]
          = length (filter P (scorers_join db sn st))"
    by (intro arg_cong [where f = length] filter_cong refl same)
  also have "\<dots> = sum_list (map (\<lambda>e. length (filter P (event_join db sn st e))) (match_events db))"
    by (simp add: scorers_join_concat length_filter_concat comp_def)
  also have "\<dots> = sum_list (map (\<lambda>e. if e_type e = ''goal'' \<and> e_player_id e = Some (p_id p0)
                                           \<and> in_scope db sn st e then 1 else 0) (match_events db))"
  proof (intro arg_cong [where f = sum_list] map_cong refl)
    fix e assume "e \<in> set (match_events db)"
    have "(\<exists>x \<in> set (event_join db sn st e). P x)
            \<longleftrightarrow> (e_type e = ''goal'' \<and> e_player_id e = Some (p_id p0) \<and> in_scope db sn st e)"
    proof
      assume "\<exists>x \<in> set (event_join db sn st e). P x"
      then obtain e' m p t where mem: "(e', m, p, t) \<in> set (event_join db sn st e)"
        and "p_id p = p_id p0"
        by (auto simp: P_def)
      then show "e_type e = ''goal'' \<and> e_player_id e = Some (p_id p0) \<and> in_scope db sn st e"
        unfolding set_event_join in_scope_def stage_covers_iff by auto
    next
      assume q: "e_type e = ''goal'' \<and> e_player_id e = Some (p_id p0) \<and> in_scope db sn st e"
      then obtain m where "m \<in> set (matches db)" "m_id m = e_match_id e" "m_season_year m = sn"
        "m_stage_code m \<in> set (stages_for_query st)"
        unfolding in_scope_def stage_covers_iff [symmetric] by blast
      with q p0 t0 pt0 have "(e, m, p0, t0) \<in> set (event_join db sn st e)"
        by (simp add: set_event_join)
      moreover have "P (e, m, p0, t0)" by (simp add: P_def)
      ultimately show "\<exists>x \<in> set (event_join db sn st e). P x" by blast
    qed
    then show "length (filter P (event_join db sn st e))
             = (if e_type e = ''goal'' \<and> e_player_id e = Some (p_id p0) \<and> in_scope db sn st e
                then 1 else 0)"
      using length_filter_short [OF event_join_length [OF pk], of P sn st e] by simp
  qed
  also have "\<dots> = length [e \<leftarrow> match_events db. e_type e = ''goal'' \<and> e_player_id e = Some (p_id p0)
                                        \<and> in_scope db sn st e]"
    by (simp only: length_filter_sum)
  finally show ?thesis by (simp add: goals_of_def)
qed

lemma find_key_Some:
  assumes "g \<in> set (map key xs)"
  shows "\<exists>x. find (\<lambda>x. key x = g) xs = Some x \<and> x \<in> set xs \<and> key x = g"
  using assms by (induction xs) auto

lemma find_in_set: "find P xs = Some x \<Longrightarrow> x \<in> set xs"
  by (induction xs) (auto split: if_splits)

lemma scorer_groups_set:
  assumes "r \<in> set (scorer_groups db sn st)"
  shows "\<exists>x \<in> set (scorers_join db sn st). r = scorer_row (scorers_join db sn st) x"
proof -
  let ?J = "scorers_join db sn st"
  have "set (concat (map (\<lambda>g. case find (\<lambda>x. scorers_group_key x = g) ?J of
                               None \<Rightarrow> []
                             | Some x \<Rightarrow> [scorer_row ?J x]) gs))
          \<subseteq> scorer_row ?J ` set ?J" for gs
    by (induction gs) (auto split: option.splits dest: find_in_set find_in_set [OF sym])
  with assms show ?thesis
    unfolding scorer_groups_def Let_def by blast
qed

lemma scorer_row_key:
  "(sc_player_id (scorer_row joined x), sc_team (scorer_row joined x)) = scorers_group_key x"
  by (cases x) (simp add: scorer_row_def scorers_group_key_def)

lemma scorer_groups_keys:
  "map (\<lambda>r. (sc_player_id r, sc_team r)) (scorer_groups db sn st)
     = remdups (map scorers_group_key (scorers_join db sn st))"
proof -
  let ?J = "scorers_join db sn st"
  have "map (\<lambda>r. (sc_player_id r, sc_team r))
          (concat (map (\<lambda>g. case find (\<lambda>x. scorers_group_key x = g) ?J of
                               None \<Rightarrow> []
                             | Some x \<Rightarrow> [scorer_row ?J x]) gs)) = gs"
    if "set gs \<subseteq> set (map scorers_group_key ?J)" for gs
    using that
  proof (induction gs)
    case Nil
    show ?case by simp
  next
    case (Cons g gs)
    then have "g \<in> set (map scorers_group_key ?J)" by simp
    from find_key_Some [OF this] obtain x where
      "find (\<lambda>x. scorers_group_key x = g) ?J = Some x" and "scorers_group_key x = g"
      by blast
    with Cons show ?case by (simp add: scorer_row_key)
  qed
  from this [of "remdups (map scorers_group_key ?J)"] show ?thesis
    unfolding scorer_groups_def Let_def by simp
qed

lemma sql_limit_prefix: "sql_limit n xs = take (if n < 0 then length xs else nat n) xs"
  by (simp add: sql_limit_def)

lemma list_scorers_prefix:
  "list_scorers arrange db sn st top_arg
     = take (if top_arg < 0 then length (arrange (scorer_groups db sn st)) else nat top_arg)
         (list_scorers arrange db sn st (- 1))"
  by (simp add: list_scorers_def sql_limit_def)

lemma list_scorers_all:
  assumes "\<And>xs. mset (arrange xs) = mset xs"
  shows "set (list_scorers arrange db sn st (- 1)) = set (scorer_groups db sn st)"
proof -
  have "set (arrange (scorer_groups db sn st)) = set (scorer_groups db sn st)"
    using assms by (rule mset_eq_setD)
  then show ?thesis by (simp add: list_scorers_def sql_limit_def)
qed

lemma list_scorers_set:
  assumes "\<And>xs. mset (arrange xs) = mset xs"
  shows "set (list_scorers arrange db sn st top_arg) \<subseteq> set (scorer_groups db sn st)"
  unfolding list_scorers_all [OF assms, of db sn st, symmetric] list_scorers_prefix [of arrange db sn st top_arg]
  by (rule set_take_subset)

lemma scorer_key_le:
  "((- g1, n1 :: string) \<le> (- g2, n2)) \<longleftrightarrow> (g1 > g2 \<or> (g1 = g2 \<and> n1 \<le> n2))" for g1 g2 :: int
  by (auto simp: less_eq_prod_def)

lemma scorer_order_sorted:
  "scorer_order (sort_key (\<lambda>r. (- sc_goals r, sc_player r)) rs)"
proof -
  have "sorted (map (\<lambda>r. (- sc_goals r, sc_player r))
                 (sort_key (\<lambda>r. (- sc_goals r, sc_player r)) rs))"
    by (rule sorted_sort_key)
  then show ?thesis
    unfolding scorer_order_def sorted_iff_nth_mono_less
    by (auto simp: scorer_key_le [symmetric])
qed

lemma scorer_order_take: "scorer_order rs \<Longrightarrow> scorer_order (take n rs)"
  by (simp add: scorer_order_def)

lemma list_scorers_order: "scorer_order (list_scorers arrange db sn st top_arg)"
  unfolding list_scorers_prefix [of arrange db sn st top_arg]
  by (rule scorer_order_take) (simp add: list_scorers_def sql_limit_def scorer_order_sorted)

lemma list_scorers_distinct:
  assumes "\<And>xs. mset (arrange xs) = mset xs"
  shows "distinct (map (\<lambda>r. (sc_player_id r, sc_team r)) (list_scorers arrange db sn st top_arg))"
proof -
  have "distinct (map (\<lambda>r. (sc_player_id r, sc_team r)) (scorer_groups db sn st))"
    by (simp add: scorer_groups_keys)
  moreover have "mset (map (\<lambda>r. (sc_player_id r, sc_team r))
                   (sort_key (\<lambda>r. (- sc_goals r, sc_player r)) (arrange (scorer_groups db sn st))))
               = mset (map (\<lambda>r. (sc_player_id r, sc_team r)) (scorer_groups db sn st))"
    by (simp add: assms)
  ultimately have "distinct (map (\<lambda>r. (sc_player_id r, sc_team r))
               (sort_key (\<lambda>r. (- sc_goals r, sc_player r)) (arrange (scorer_groups db sn st))))"
    by (metis mset_eq_imp_distinct_iff)
  then show ?thesis
    unfolding list_scorers_def sql_limit_def
    by (auto simp: take_map [symmetric] intro: distinct_take)
qed

lemma list_scorers_rows:
  assumes perm: "\<And>xs. mset (arrange xs) = mset xs"
    and pk: "primary_keys db" and r: "r \<in> set (list_scorers arrange db sn st top_arg)"
  shows "sc_goals r = goals_of db sn st (sc_player_id r) \<and> 1 \<le> sc_goals r
     \<and> (\<exists>p \<in> set (players db). \<exists>t \<in> set (teams db).
           p_id p = sc_player_id r \<and> p_full_name p = sc_player r \<and> p_team_id p = t_id t
           \<and> t_id t = sc_team_id r \<and> t_name t = sc_team r)"
proof -
  from r list_scorers_set [OF perm] have "r \<in> set (scorer_groups db sn st)" by blast
  from scorer_groups_set [OF this] obtain x where
    x: "x \<in> set (scorers_join db sn st)" and rx: "r = scorer_row (scorers_join db sn st) x"
    by blast
  obtain e m p t where xe: "x = (e, m, p, t)" by (cases x) auto
  from x have mem: "p \<in> set (players db)" "t \<in> set (teams db)" "p_team_id p = t_id t"
    by (simp_all add: xe set_scorers_join)
  have cnt: "sc_goals r = goals_of db sn st (p_id p)"
    using group_count [OF pk x [unfolded xe]] by (simp add: rx xe scorer_row_def)
  have "x \<in> set [y \<leftarrow> scorers_join db sn st. scorers_group_key y = scorers_group_key x]"
    using x by simp
  then have "0 < length [y \<leftarrow> scorers_join db sn st. scorers_group_key y = scorers_group_key x]"
    by (rule length_pos_if_in_set)
  then have "1 \<le> int (length [y \<leftarrow> scorers_join db sn st.
                                 scorers_group_key y = scorers_group_key (e, m, p, t)])"
    unfolding xe by linarith
  then have pos1: "1 \<le> sc_goals r"
    by (simp add: rx xe scorer_row_def)
  have fields: "sc_player_id r = p_id p" "sc_player r = p_full_name p" "sc_team_id r = t_id t"
    "sc_team r = t_name t"
    by (simp_all add: rx xe scorer_row_def)
  from cnt pos1 mem fields show ?thesis by auto
qed

lemma sorted_fst:
  fixes xs :: "(int \<times> string) list"
  assumes "sorted xs"
  shows "sorted (map fst xs)"
proof -
  have "sorted_wrt (\<lambda>x y. fst x \<le> fst y) xs"
    using assms by (rule sorted_wrt_mono_rel [rotated]) (auto simp: less_eq_prod_def)
  then show ?thesis by (simp add: sorted_map)
qed

lemma scenario_scorers:
  assumes perm: "\<And>xs. mset (arrange xs) = mset xs"
    and counts: "mset (map sc_goals (scorer_groups db sn st)) = {#5, 5, 3, 1#}"
  shows "\<exists>a b c. list_scorers arrange db sn st 3 = [a, b, c]
           \<and> sc_goals a = 5 \<and> sc_goals b = 5 \<and> sc_goals c = 3 \<and> sc_player a \<le> sc_player b"
proof -
  define S where "S = sort_key (\<lambda>r. (- sc_goals r, sc_player r))
                        (arrange (scorer_groups db sn st))"
  have srt: "sorted (map (\<lambda>r. (- sc_goals r, sc_player r)) S)"
    unfolding S_def by (rule sorted_sort_key)
  then have "sorted (map fst (map (\<lambda>r. (- sc_goals r, sc_player r)) S))"
    by (rule sorted_fst)
  then have s1: "sorted (map (\<lambda>r. - sc_goals r) S)"
    by (simp add: comp_def)
  have "mset (map sc_goals S) = {#5, 5, 3, 1#}"
    using counts by (simp add: S_def perm)
  then have "image_mset uminus (mset (map sc_goals S)) = image_mset uminus {#5, 5, 3, 1#}"
    by simp
  then have "mset (map (\<lambda>r. - sc_goals r) S) = mset [- 5, - 5, - 3, - 1]"
    by (simp add: multiset.map_comp comp_def)
  from properties_for_sort [OF this s1]
  have neg: "map (\<lambda>r. - sc_goals r) S = [- 5, - 5, - 3, - 1]"
    by simp
  then have "length S = 4" by (metis length_map length_Cons list.size(3) numeral_eq_Suc
        One_nat_def Suc_eq_plus1 add_2_eq_Suc' one_add_one numeral_2_eq_2 pred_numeral_simps(2)
        numeral_3_eq_3 Suc_numeral semiring_norm(2) semiring_norm(8))
  then obtain a b c e where S: "S = [a, b, c, e]"
    by (auto simp: length_Suc_conv numeral_eq_Suc)
  from neg have g: "sc_goals a = 5" "sc_goals b = 5" "sc_goals c = 3"
    by (simp_all add: S)
  from srt have "(- sc_goals a, sc_player a) \<le> (- sc_goals b, sc_player b)"
    by (simp add: S)
  then have "sc_player a \<le> sc_player b"
    using g by (simp add: less_eq_prod_def)
  moreover have "list_scorers arrange db sn st 3 = [a, b, c]"
    by (simp add: list_scorers_def sql_limit_def S_def [symmetric] S)
  ultimately show ?thesis using g by blast
qed

lemma api_scorers_bounds:
  "(top_arg < 1 \<or> 100 < top_arg \<longrightarrow> api_scorers arrange db so sto top_arg = Inl RequestValidationError)
   \<and> (\<forall>resp. api_scorers arrange db so sto top_arg = Inr resp \<longrightarrow>
         1 \<le> top_arg \<and> top_arg \<le> 100
         \<and> r_scorers resp = list_scorers arrange db (r_season resp) (r_stage resp) top_arg
         \<and> int (length (r_scorers resp)) \<le> top_arg)"
  by (auto simp: api_scorers_def list_scorers_def sql_limit_def split: sum.splits if_splits)

lemma scorers_complete:
  assumes perm: "\<And>xs. mset (arrange xs) = mset xs"
    and p: "p \<in> set (players db)" and t: "t \<in> set (teams db)" "p_team_id p = t_id t"
    and goals: "1 \<le> goals_of db sn st (p_id p)"
  shows "\<exists>r \<in> set (list_scorers arrange db sn st (- 1)). sc_player_id r = p_id p \<and> sc_team r = t_name t"
proof -
  from goals have "[e \<leftarrow> match_events db. e_type e = ''goal'' \<and> e_player_id e = Some (p_id p)
                                        \<and> in_scope db sn st e] \<noteq> []"
    by (auto simp: goals_of_def)
  then obtain e where e: "e \<in> set (match_events db)" "e_type e = ''goal''"
    "e_player_id e = Some (p_id p)" "in_scope db sn st e"
    by (auto simp: filter_empty_conv)
  from e(4) obtain m where m: "m \<in> set (matches db)" "m_id m = e_match_id e"
    "m_season_year m = sn" "m_stage_code m \<in> set (stages_for_query st)"
    unfolding in_scope_def stage_covers_iff [symmetric] by blast
  from e m p t have "(e, m, p, t) \<in> set (scorers_join db sn st)"
    by (simp add: set_scorers_join)
  then have "(p_id p, t_name t) \<in> set (remdups (map scorers_group_key (scorers_join db sn st)))"
    by (force simp: scorers_group_key_def)
  then have "(p_id p, t_name t)
      \<in> set (map (\<lambda>r. (sc_player_id r, sc_team r)) (scorer_groups db sn st))"
    by (simp only: scorer_groups_keys)
  then obtain r where "r \<in> set (scorer_groups db sn st)" "sc_player_id r = p_id p"
    "sc_team r = t_name t"
    by auto
  then show ?thesis
    unfolding list_scorers_all [OF perm] by blast
qed

lemma length_filter_disj:
  assumes "\<And>x. x \<in> set xs \<Longrightarrow> \<not> (P x \<and> Q x)"
  shows "length [x \<leftarrow> xs. R x \<and> (P x \<or> Q x)]
           = length [x \<leftarrow> xs. R x \<and> P x] + length [x \<leftarrow> xs. R x \<and> Q x]"
  using assms by (induction xs) auto

lemma goals_of_anual:
  assumes "primary_keys db"
  shows "goals_of db sn ''anual'' pid
           = goals_of db sn ''apertura'' pid + goals_of db sn ''clausura'' pid"
proof -
  have dm: "distinct (map m_id (matches db))"
    using assms by (simp add: primary_keys_def)
  have split: "in_scope db sn ''anual'' e
                 \<longleftrightarrow> in_scope db sn ''apertura'' e \<or> in_scope db sn ''clausura'' e" for e
    by (auto simp: in_scope_def stage_covers_def)
  have excl: "\<not> (in_scope db sn ''apertura'' e \<and> in_scope db sn ''clausura'' e)" for e
  proof
    assume "in_scope db sn ''apertura'' e \<and> in_scope db sn ''clausura'' e"
    then obtain m m' where m: "m \<in> set (matches db)" "m_id m = e_match_id e"
        "m_stage_code m = ''apertura''"
      and m': "m' \<in> set (matches db)" "m_id m' = e_match_id e" "m_stage_code m' = ''clausura''"
      by (auto simp: in_scope_def stage_covers_def)
    from unique_by_key [OF dm m(1) m'(1)] m(2) m'(2) have "m = m'" by simp
    with m(3) m'(3) show False by simp
  qed
  have "length [e \<leftarrow> match_events db. (e_type e = ''goal'' \<and> e_player_id e = Some pid)
                     \<and> (in_scope db sn ''apertura'' e \<or> in_scope db sn ''clausura'' e)]
          = length [e \<leftarrow> match_events db. (e_type e = ''goal'' \<and> e_player_id e = Some pid)
                     \<and> in_scope db sn ''apertura'' e]
            + length [e \<leftarrow> match_events db. (e_type e = ''goal'' \<and> e_player_id e = Some pid)
                     \<and> in_scope db sn ''clausura'' e]"
    by (rule length_filter_disj) (rule excl)
  then show ?thesis
    by (simp add: goals_of_def split conj_assoc)
qed

text \<open>
  Claim C7. \<^verbatim>\<open>list_scorers\<close> returns one row per (player, team) with at least one goal
  event in the matches of the season whose stage the queried stage covers (anual covers
  apertura and clausura, every other stage itself), with that number of goal events, in
  the order goals descending, then player name ascending, cut to the first \<open>top\<close> rows;
  the goals counted for anual are those of apertura plus those of clausura.
  \<^verbatim>\<open>api_scorers\<close> accepts \<open>top\<close> from 1 to 100 only. When the groups have the goal counts
  5, 5, 3 and 1, \<open>top = 3\<close> returns three rows: the two with 5 goals, in ascending order of
  player name, then the one with 3 goals. All of this holds whatever order the engine
  gives to rows that tie on goals and name.
\<close>

theorem list_scorers_ranked_and_truncated:
  assumes perm: "\<And>xs. mset (arrange xs) = mset xs"
  shows "scorer_order (list_scorers arrange db sn st top_arg)
   \<and> distinct (map (\<lambda>r. (sc_player_id r, sc_team r)) (list_scorers arrange db sn st top_arg))
   \<and> (0 \<le> top_arg \<longrightarrow>
        list_scorers arrange db sn st top_arg
          = take (nat top_arg) (list_scorers arrange db sn st (- 1)))
   \<and> (primary_keys db \<longrightarrow>
        (\<forall>r \<in> set (list_scorers arrange db sn st top_arg).
            sc_goals r = goals_of db sn st (sc_player_id r) \<and> 1 \<le> sc_goals r
            \<and> (\<exists>p \<in> set (players db). \<exists>t \<in> set (teams db).
                  p_id p = sc_player_id r \<and> p_full_name p = sc_player r
                  \<and> p_team_id p = t_id t \<and> t_id t = sc_team_id r \<and> t_name t = sc_team r)))
   \<and> (primary_keys db \<longrightarrow>
        (\<forall>pid. goals_of db sn ''anual'' pid
                 = goals_of db sn ''apertura'' pid + goals_of db sn ''clausura'' pid))
   \<and> (\<forall>p \<in> set (players db). \<forall>t \<in> set (teams db).
        p_team_id p = t_id t \<and> 1 \<le> goals_of db sn st (p_id p) \<longrightarrow>
        (\<exists>r \<in> set (list_scorers arrange db sn st (- 1)).
            sc_player_id r = p_id p \<and> sc_team r = t_name t))
   \<and> (top_arg < 1 \<or> 100 < top_arg \<longrightarrow>
        api_scorers arrange db so sto top_arg = Inl RequestValidationError)
   \<and> (\<forall>resp. api_scorers arrange db so sto top_arg = Inr resp \<longrightarrow>
         1 \<le> top_arg \<and> top_arg \<le> 100
         \<and> r_scorers resp = list_scorers arrange db (r_season resp) (r_stage resp) top_arg
         \<and> int (length (r_scorers resp)) \<le> top_arg)
   \<and> (mset (map sc_goals (scorer_groups db sn st)) = {#5, 5, 3, 1#} \<longrightarrow>
        (\<exists>a b c. list_scorers arrange db sn st 3 = [a, b, c]
           \<and> sc_goals a = 5 \<and> sc_goals b = 5 \<and> sc_goals c = 3
           \<and> sc_player a \<le> sc_player b))"
proof (intro conjI)
  show "scorer_order (list_scorers arrange db sn st top_arg)"
    by (rule list_scorers_order)
  show "distinct (map (\<lambda>r. (sc_player_id r, sc_team r))
          (list_scorers arrange db sn st top_arg))"
    by (rule list_scorers_distinct [OF perm])
  show "0 \<le> top_arg \<longrightarrow>
        list_scorers arrange db sn st top_arg
          = take (nat top_arg) (list_scorers arrange db sn st (- 1))"
    by (simp add: list_scorers_def sql_limit_def)
  show "primary_keys db \<longrightarrow>
        (\<forall>r \<in> set (list_scorers arrange db sn st top_arg).
            sc_goals r = goals_of db sn st (sc_player_id r) \<and> 1 \<le> sc_goals r
            \<and> (\<exists>p \<in> set (players db). \<exists>t \<in> set (teams db).
                  p_id p = sc_player_id r \<and> p_full_name p = sc_player r
                  \<and> p_team_id p = t_id t \<and> t_id t = sc_team_id r \<and> t_name t = sc_team r))"
    using list_scorers_rows [OF perm] by blast
  show "primary_keys db \<longrightarrow>
        (\<forall>pid. goals_of db sn ''anual'' pid
                 = goals_of db sn ''apertura'' pid + goals_of db sn ''clausura'' pid)"
    using goals_of_anual by blast
  show "\<forall>p \<in> set (players db). \<forall>t \<in> set (teams db).
        p_team_id p = t_id t \<and> 1 \<le> goals_of db sn st (p_id p) \<longrightarrow>
        (\<exists>r \<in> set (list_scorers arrange db sn st (- 1)).
            sc_player_id r = p_id p \<and> sc_team r = t_name t)"
    using scorers_complete [OF perm] by blast
  show "top_arg < 1 \<or> 100 < top_arg \<longrightarrow>
        api_scorers arrange db so sto top_arg = Inl RequestValidationError"
    using api_scorers_bounds by blast
  show "\<forall>resp. api_scorers arrange db so sto top_arg = Inr resp \<longrightarrow>
         1 \<le> top_arg \<and> top_arg \<le> 100
         \<and> r_scorers resp = list_scorers arrange db (r_season resp) (r_stage resp) top_arg
         \<and> int (length (r_scorers resp)) \<le> top_arg"
    using api_scorers_bounds by blast
  show "mset (map sc_goals (scorer_groups db sn st)) = {#5, 5, 3, 1#} \<longrightarrow>
        (\<exists>a b c. list_scorers arrange db sn st 3 = [a, b, c]
           \<and> sc_goals a = 5 \<and> sc_goals b = 5 \<and> sc_goals c = 3
           \<and> sc_player a \<le> sc_player b)"
    using scenario_scorers [OF perm] by blast
qed

text \<open>In the example, with the engine giving the groups in reverse order, Zapata and
  Alvez have 5 goals in the 2024 apertura, Bueno 3 and Mendez 1: the first three rows are
  Alvez, Zapata, Bueno. Mendez has 2 more goals in the clausura, Bueno 1 in the
  intermedio and Mendez 1 in the apertura of 2023: for anual Mendez has 3 goals and comes
  after Bueno, who still has 3.\<close>

theorem list_scorers_ranked_and_truncated_witness:
  "(\<forall>xs :: ScorerRow list. mset (rev xs) = mset xs)
   \<and> primary_keys scorers_store
   \<and> mset (map sc_goals (scorer_groups scorers_store 2024 ''apertura'')) = {#5, 5, 3, 1#}
   \<and> (\<exists>a b c. list_scorers rev scorers_store 2024 ''apertura'' 3 = [a, b, c]
         \<and> sc_goals a = 5 \<and> sc_goals b = 5 \<and> sc_goals c = 3 \<and> sc_player a \<le> sc_player b)
   \<and> map (\<lambda>r. (sc_player r, sc_team r, sc_goals r))
        (list_scorers rev scorers_store 2024 ''apertura'' 3)
      = [(''Alvez'', ''Cerro'', 5), (''Zapata'', ''Nacional'', 5), (''Bueno'', ''Cerro'', 3)]
   \<and> map (\<lambda>r. (sc_player r, sc_team r, sc_goals r))
        (list_scorers rev scorers_store 2024 ''anual'' 4)
      = [(''Alvez'', ''Cerro'', 5), (''Zapata'', ''Nacional'', 5), (''Bueno'', ''Cerro'', 3),
         (''Mendez'', ''Nacional'', 3)]
   \<and> goals_of scorers_store 2024 ''anual'' 2 = 3
   \<and> goals_of scorers_store 2024 ''apertura'' 2 = 1
   \<and> goals_of scorers_store 2024 ''clausura'' 2 = 2
   \<and> goals_of scorers_store 2024 ''intermedio'' 4 = 1
   \<and> api_scorers rev scorers_store None None 0 = Inl RequestValidationError
   \<and> api_scorers rev scorers_store None None 101 = Inl RequestValidationError"
proof -
  have perm: "mset (rev xs) = mset xs" for xs :: "ScorerRow list" by simp
  have pk: "primary_keys scorers_store" by code_simp
  have "map sc_goals (scorer_groups scorers_store 2024 ''apertura'') = [5, 1, 5, 3]"
    by code_simp
  then have ms: "mset (map sc_goals (scorer_groups scorers_store 2024 ''apertura''))
                   = {#5, 5, 3, 1#}"
    by simp
  note inst = list_scorers_ranked_and_truncated
    [of rev scorers_store 2024 "''apertura''" 0 None None, OF perm]
  from inst ms have sc: "\<exists>a b c. list_scorers rev scorers_store 2024 ''apertura'' 3 = [a, b, c]
         \<and> sc_goals a = 5 \<and> sc_goals b = 5 \<and> sc_goals c = 3 \<and> sc_player a \<le> sc_player b"
    by blast
  from inst have low: "api_scorers rev scorers_store None None 0 = Inl RequestValidationError"
    by simp
  from inst pk have an: "goals_of scorers_store 2024 ''anual'' 2
     = goals_of scorers_store 2024 ''apertura'' 2 + goals_of scorers_store 2024 ''clausura'' 2"
    by blast
  have g: "goals_of scorers_store 2024 ''apertura'' 2 = 1"
    "goals_of scorers_store 2024 ''clausura'' 2 = 2"
    "goals_of scorers_store 2024 ''intermedio'' 4 = 1"
    by code_simp+
  from an g have g3: "goals_of scorers_store 2024 ''anual'' 2 = 3" by simp
  have rows: "map (\<lambda>r. (sc_player r, sc_team r, sc_goals r))
        (list_scorers rev scorers_store 2024 ''apertura'' 3)
      = [(''Alvez'', ''Cerro'', 5), (''Zapata'', ''Nacional'', 5), (''Bueno'', ''Cerro'', 3)]"
    by code_simp
  have rows_anual: "map (\<lambda>r. (sc_player r, sc_team r, sc_goals r))
        (list_scorers rev scorers_store 2024 ''anual'' 4)
      = [(''Alvez'', ''Cerro'', 5), (''Zapata'', ''Nacional'', 5), (''Bueno'', ''Cerro'', 3),
         (''Mendez'', ''Nacional'', 3)]"
    by code_simp
  have high: "api_scorers rev scorers_store None None 101 = Inl RequestValidationError"
    by code_simp
  from perm pk ms sc rows rows_anual g3 g low high show ?thesis by blast
qed

end
